(* ===== verification/Prelude.thy ===== *)
theory Prelude
  imports Main "HOL-Library.Char_ord" "HOL-Library.List_Lexorder" "HOL-Library.Product_Lexorder"
begin

text \<open>
  Shared vocabulary of the development: Python values and dictionaries as they appear in
  payloads, the operation type (state in, error or result and state out), the rules that lift a
  relation between states from primitive writes to whole operations, keyed tables in the shape
  SQLite gives them, and the supply of fresh identifiers that stands for \<open>uuid4().hex\<close>.
\<close>

named_theorems op_simps \<open>unfolding rules of the operation combinators\<close>
named_theorems frame \<open>which components of the state an operation leaves alone\<close>

section \<open>Python values and dictionaries\<close>

datatype val =
    VNone
  | VBool bool
  | VInt int
  | VStr string
  | VList "val list"
  | VDict "(string \<times> val) list"

type_synonym pydict = "(string \<times> val) list"

fun truthy :: "val \<Rightarrow> bool" where
  "truthy VNone = False"
| "truthy (VBool b) = b"
| "truthy (VInt i) = (i \<noteq> 0)"
| "truthy (VStr s) = (s \<noteq> [])"
| "truthy (VList xs) = (xs \<noteq> [])"
| "truthy (VDict d) = (d \<noteq> [])"

text \<open>\<open>d.get(k)\<close>, \<open>d[k] = v\<close>, \<open>d.setdefault(k, v)\<close> and \<open>x or {}\<close>.\<close>

definition dict_get :: "pydict \<Rightarrow> string \<Rightarrow> val" where
  "dict_get d k = (case map_of d k of None \<Rightarrow> VNone | Some v \<Rightarrow> v)"

fun dict_set :: "'k \<Rightarrow> 'v \<Rightarrow> ('k \<times> 'v) list \<Rightarrow> ('k \<times> 'v) list" where
  "dict_set k v [] = [(k, v)]"
| "dict_set k v ((k', v') # d) = (if k' = k then (k, v) # d else (k', v') # dict_set k v d)"

definition dict_setdefault :: "string \<Rightarrow> val \<Rightarrow> pydict \<Rightarrow> pydict" where
  "dict_setdefault k v d = (case map_of d k of None \<Rightarrow> dict_set k v d | Some _ \<Rightarrow> d)"

definition or_empty :: "pydict option \<Rightarrow> pydict" where
  "or_empty x = (case x of None \<Rightarrow> [] | Some d \<Rightarrow> d)"

text \<open>A dictionary stored in a nullable column: empty and missing both become NULL.\<close>

definition null_if_empty :: "pydict option \<Rightarrow> pydict option" where
  "null_if_empty x = (case x of None \<Rightarrow> None | Some d \<Rightarrow> if d = [] then None else Some d)"

lemma map_of_dict_set: "map_of (dict_set k v d) = (map_of d)(k \<mapsto> v)"
  by (induction d) (auto simp: fun_eq_iff)

lemma dict_get_set [simp]: "dict_get (dict_set k v d) k' = (if k' = k then v else dict_get d k')"
  by (simp add: dict_get_def map_of_dict_set)

lemma map_of_Some_key: "map_of m k = Some v \<Longrightarrow> k \<in> fst ` set m"
  by (force dest: map_of_SomeD)

lemma null_if_empty_simps [simp]:
  "null_if_empty None = None" "null_if_empty (Some []) = None"
  "null_if_empty (Some (x # d)) = Some (x # d)"
  by (simp_all add: null_if_empty_def)

lemma null_if_empty_idem [simp]: "null_if_empty (null_if_empty x) = null_if_empty x"
  by (simp add: null_if_empty_def split: option.split)

lemma or_empty_simps [simp]: "or_empty None = []" "or_empty (Some d) = d"
  by (simp_all add: or_empty_def)

section \<open>Operations: state in, error or result and state out\<close>

type_synonym ('e, 'a, 's) op = "'s \<Rightarrow> ('e + 'a) \<times> 's"

definition ret :: "'a \<Rightarrow> ('e, 'a, 's) op" where
  "ret x = (\<lambda>s. (Inr x, s))"

definition raise :: "'e \<Rightarrow> ('e, 'a, 's) op" where
  "raise e = (\<lambda>s. (Inl e, s))"

definition gets :: "('s \<Rightarrow> 'a) \<Rightarrow> ('e, 'a, 's) op" where
  "gets f = (\<lambda>s. (Inr (f s), s))"

definition modify :: "('s \<Rightarrow> 's) \<Rightarrow> ('e, unit, 's) op" where
  "modify f = (\<lambda>s. (Inr (), f s))"

definition bind_op :: "('e, 'a, 's) op \<Rightarrow> ('a \<Rightarrow> ('e, 'b, 's) op) \<Rightarrow> ('e, 'b, 's) op" where
  "bind_op m f = (\<lambda>s. case m s of (Inl e, s') \<Rightarrow> (Inl e, s') | (Inr x, s') \<Rightarrow> f x s')"

definition then_op :: "('e, 'a, 's) op \<Rightarrow> ('e, 'b, 's) op \<Rightarrow> ('e, 'b, 's) op" where
  "then_op m k = bind_op m (\<lambda>_. k)"

definition try_op :: "('e, 'a, 's) op \<Rightarrow> ('e \<Rightarrow> ('e, 'a, 's) op) \<Rightarrow> ('e, 'a, 's) op" where
  "try_op m h = (\<lambda>s. case m s of (Inl e, s') \<Rightarrow> h e s' | (Inr x, s') \<Rightarrow> (Inr x, s'))"

definition when_op :: "bool \<Rightarrow> ('e, unit, 's) op \<Rightarrow> ('e, unit, 's) op" where
  "when_op b m = (if b then m else ret ())"

text \<open>A \<open>with storage.transaction()\<close> block: an exception rolls the tables back.\<close>

definition transaction :: "('e, 'a, 's) op \<Rightarrow> ('e, 'a, 's) op" where
  "transaction m = (\<lambda>s. case m s of (Inl e, s') \<Rightarrow> (Inl e, s) | (Inr x, s') \<Rightarrow> (Inr x, s'))"

text \<open>\<open>for x in xs\<close>: the loop stops at the first exception.\<close>

fun for_op :: "'x list \<Rightarrow> ('x \<Rightarrow> ('e, unit, 's) op) \<Rightarrow> ('e, unit, 's) op" where
  "for_op [] f = ret ()"
| "for_op (x # xs) f = then_op (f x) (for_op xs f)"

fun fold_op :: "('x \<Rightarrow> 'a \<Rightarrow> ('e, 'a, 's) op) \<Rightarrow> 'x list \<Rightarrow> 'a \<Rightarrow> ('e, 'a, 's) op" where
  "fold_op f [] a = ret a"
| "fold_op f (x # xs) a = bind_op (f x a) (fold_op f xs)"

lemmas op_defs = ret_def raise_def gets_def modify_def bind_op_def then_op_def try_op_def
  when_op_def transaction_def

declare op_defs [op_simps]

text \<open>Evaluation of the combinators on an applied state, as the component proofs use it.\<close>

lemma run_op [simp]:
  "ret x s = (Inr x, s)" "raise e s = (Inl e, s)" "gets f s = (Inr (f s), s)"
  "modify g s = (Inr (), g s)" "when_op True m = m" "when_op False m = ret ()"
  by (simp_all add: op_defs)

lemma bind_op_run [simp]:
  "bind_op (ret x) f = f x" "bind_op (raise e) f = raise e"
  "bind_op (gets g) f s = f (g s) s" "bind_op (modify h) k s = k () (h s)"
  "then_op (modify h) m s = m (h s)" "then_op (ret x) m = m" "then_op (raise e) m = raise e"
  "then_op (gets g) m = m"
  by (simp_all add: op_defs fun_eq_iff)

lemma bind_op_Inr: "m s = (Inr x, s') \<Longrightarrow> bind_op m f s = f x s'"
  and bind_op_Inl: "m s = (Inl e, s') \<Longrightarrow> bind_op m f s = (Inl e, s')"
  and then_op_Inr: "m s = (Inr x, s') \<Longrightarrow> then_op m k s = k s'"
  and then_op_Inl: "m s = (Inl e, s') \<Longrightarrow> then_op m k s = (Inl e, s')"
  and try_op_Inr: "m s = (Inr x, s') \<Longrightarrow> try_op m h s = (Inr x, s')"
  and try_op_Inl: "m s = (Inl e, s') \<Longrightarrow> try_op m h s = h e s'"
  by (simp_all add: op_defs)

lemma fold_op_step: "f x a s = (Inr b, s') \<Longrightarrow> fold_op f (x # xs) a s = fold_op f xs b s'"
  by (simp add: bind_op_def)

lemma bind_op_assoc: "bind_op (bind_op m f) g = bind_op m (\<lambda>x. bind_op (f x) g)"
  by (simp add: bind_op_def fun_eq_iff split: prod.split sum.split)

lemma bind_op_eq_Inr_iff:
  "bind_op m f s = (Inr y, t) \<longleftrightarrow> (\<exists>x u. m s = (Inr x, u) \<and> f x u = (Inr y, t))"
  by (auto simp: bind_op_def split: prod.splits sum.splits)

lemma then_op_eq_Inr_iff:
  "then_op m k s = (Inr y, t) \<longleftrightarrow> (\<exists>x u. m s = (Inr x, u) \<and> k u = (Inr y, t))"
  by (simp add: then_op_def bind_op_eq_Inr_iff)

lemma transaction_eq_Inr_iff [simp]: "transaction m s = (Inr y, t) \<longleftrightarrow> m s = (Inr y, t)"
  by (auto simp: transaction_def split: prod.splits sum.splits)

lemma transaction_eq_Inl_iff: "transaction m s = (Inl e, t) \<longleftrightarrow> t = s \<and> fst (m s) = Inl e"
  by (auto simp: transaction_def split: prod.splits sum.splits)

subsection \<open>Relations between the state before and after an operation\<close>

definition steps :: "('s \<Rightarrow> 's \<Rightarrow> bool) \<Rightarrow> ('e, 'a, 's) op \<Rightarrow> bool" where
  "steps R m \<longleftrightarrow> (\<forall>s. R s (snd (m s)))"

definition keeps :: "('s \<Rightarrow> 'c) \<Rightarrow> ('e, 'a, 's) op \<Rightarrow> bool" where
  "keeps f m \<longleftrightarrow> (\<forall>s. f (snd (m s)) = f s)"

lemma stepsI: "(\<And>s. R s (snd (m s))) \<Longrightarrow> steps R m"
  by (simp add: steps_def)

lemma stepsD: "steps R m \<Longrightarrow> m s = (r, t) \<Longrightarrow> R s t"
  by (metis steps_def snd_conv)

lemma keepsD: "keeps f m \<Longrightarrow> m s = (r, t) \<Longrightarrow> f t = f s"
  by (metis keeps_def snd_conv)

lemma steps_mono: "steps R m \<Longrightarrow> (\<And>s t. R s t \<Longrightarrow> Q s t) \<Longrightarrow> steps Q m"
  by (auto simp: steps_def)

text \<open>
  A preorder on states is carried from the primitive writes of an operation to the operation,
  whichever way it ends: this is proved once here and used for every safety relation.
\<close>

locale op_preorder =
  fixes R :: "'s \<Rightarrow> 's \<Rightarrow> bool"
  assumes R_refl: "R s s"
    and R_trans: "R s t \<Longrightarrow> R t u \<Longrightarrow> R s u"
begin

lemma steps_ret: "steps R (ret x)"
  by (simp add: steps_def R_refl)

lemma steps_raise: "steps R (raise e)"
  by (simp add: steps_def R_refl)

lemma steps_Pair: "steps R (Pair r)"
  by (simp add: steps_def R_refl)

lemma steps_gets: "steps R (gets f)"
  by (simp add: steps_def R_refl)

lemma steps_modify: "(\<And>s. R s (f s)) \<Longrightarrow> steps R (modify f)"
  by (simp add: steps_def)

lemma steps_bind:
  assumes m: "steps R m" and f: "\<And>x. steps R (f x)"
  shows "steps R (bind_op m f)"
proof (rule stepsI)
  fix s
  obtain r t where ms: "m s = (r, t)" by (cases "m s")
  have st: "R s t" using m ms by (rule stepsD)
  show "R s (snd (bind_op m f s))"
  proof (cases r)
    case (Inl e)
    with ms st show ?thesis by (simp add: bind_op_def)
  next
    case (Inr x)
    have "R t (snd (f x t))" using f by (simp add: steps_def)
    with st have "R s (snd (f x t))" by (rule R_trans)
    with ms Inr show ?thesis by (simp add: bind_op_def)
  qed
qed

text \<open>The same at one state, when the second part relies on what the first one established.\<close>

lemma bind_at:
  assumes "R s (snd (m s))" and "\<And>x t. m s = (Inr x, t) \<Longrightarrow> R t (snd (f x t))"
  shows "R s (snd (bind_op m f s))"
proof (cases "m s")
  case (Pair r t)
  then show ?thesis
    using assms R_trans [of s t] by (cases r) (auto simp: bind_op_def)
qed

lemma then_at:
  "R s (snd (m s)) \<Longrightarrow> (\<And>x t. m s = (Inr x, t) \<Longrightarrow> R t (snd (k t))) \<Longrightarrow> R s (snd (then_op m k s))"
  unfolding then_op_def by (rule bind_at)

lemma try_at:
  assumes "R s (snd (m s))" and "\<And>e t. m s = (Inl e, t) \<Longrightarrow> R t (snd (h e t))"
  shows "R s (snd (try_op m h s))"
proof (cases "m s")
  case (Pair r t)
  then show ?thesis
    using assms R_trans [of s t] by (cases r) (auto simp: try_op_def)
qed

lemma transaction_at:
  "(\<And>x t. m s = (Inr x, t) \<Longrightarrow> R s t) \<Longrightarrow> R s (snd (transaction m s))"
  by (auto simp: transaction_def R_refl split: prod.splits sum.splits)

lemma at_steps: "steps R m \<Longrightarrow> R s (snd (m s))"
  by (simp add: steps_def)

lemma steps_then: "steps R m \<Longrightarrow> steps R k \<Longrightarrow> steps R (then_op m k)"
  unfolding then_op_def by (rule steps_bind)

lemma steps_try:
  assumes m: "steps R m" and h: "\<And>e. steps R (h e)"
  shows "steps R (try_op m h)"
proof (rule stepsI)
  fix s
  obtain r t where ms: "m s = (r, t)" by (cases "m s")
  have st: "R s t" using m ms by (rule stepsD)
  have "R s (snd (h e t))" for e
    using h st R_trans unfolding steps_def by blast
  with ms st show "R s (snd (try_op m h s))"
    by (cases r) (simp_all add: try_op_def)
qed

lemma steps_when: "steps R m \<Longrightarrow> steps R (when_op b m)"
  by (simp add: when_op_def steps_ret)

lemma steps_if: "(b \<Longrightarrow> steps R m) \<Longrightarrow> (\<not> b \<Longrightarrow> steps R k) \<Longrightarrow> steps R (if b then m else k)"
  by simp

lemma steps_transaction: "steps R m \<Longrightarrow> steps R (transaction m)"
  by (simp add: steps_def transaction_def R_refl split: prod.split sum.split) (metis snd_conv)

lemma steps_for: "(\<And>x. x \<in> set xs \<Longrightarrow> steps R (f x)) \<Longrightarrow> steps R (for_op xs f)"
  by (induction xs) (auto intro: steps_ret steps_then)

lemma steps_fold: "(\<And>x a. x \<in> set xs \<Longrightarrow> steps R (f x a)) \<Longrightarrow> steps R (fold_op f xs a)"
  by (induction xs arbitrary: a) (auto intro: steps_ret steps_bind)

lemmas steps_rules = steps_ret steps_Pair steps_raise steps_gets steps_bind steps_then steps_try
  steps_when steps_transaction steps_for steps_fold

end

text \<open>Leaving a component of the state alone is such a preorder, so its rules come for free.\<close>

lemma keeps_steps: "keeps f m \<longleftrightarrow> steps (\<lambda>s t. f t = f s) m"
  by (simp add: keeps_def steps_def)

interpretation kept: op_preorder "\<lambda>s t. f t = f s" for f :: "'s \<Rightarrow> 'c"
  by unfold_locales auto

lemmas keeps_rules [frame] = kept.steps_rules [folded keeps_steps]

lemma keeps_modify [frame]: "(\<And>s. f (g s) = f s) \<Longrightarrow> keeps f (modify g)"
  by (simp add: keeps_def)

text \<open>An invariant is one too.\<close>

definition invariant_op :: "('s \<Rightarrow> bool) \<Rightarrow> ('e, 'a, 's) op \<Rightarrow> bool" where
  "invariant_op I m \<longleftrightarrow> (\<forall>s. I s \<longrightarrow> I (snd (m s)))"

lemma invariant_op_steps: "invariant_op I m \<longleftrightarrow> steps (\<lambda>s t. I s \<longrightarrow> I t) m"
  by (simp add: invariant_op_def steps_def)

interpretation invar: op_preorder "\<lambda>s t. I s \<longrightarrow> I t" for I :: "'s \<Rightarrow> bool"
  by unfold_locales auto

lemmas invariant_op_rules = invar.steps_rules [folded invariant_op_steps]

lemma invariant_opD: "invariant_op I m \<Longrightarrow> I s \<Longrightarrow> m s = (r, t) \<Longrightarrow> I t"
  by (metis invariant_op_def snd_conv)

section \<open>Tables\<close>

text \<open>
  A table is the list of its rows in insertion order. \<open>INSERT ... ON CONFLICT(key) DO UPDATE\<close>
  is \<open>tbl_upsert\<close> (\<open>merge\<close> says which columns the update takes from the new row),
  \<open>INSERT OR REPLACE\<close> is \<open>tbl_replace\<close>.
\<close>

definition tbl_get :: "('r \<Rightarrow> 'k) \<Rightarrow> 'r list \<Rightarrow> 'k \<Rightarrow> 'r option" where
  "tbl_get key t k = find (\<lambda>r. key r = k) t"

definition tbl_upsert :: "('r \<Rightarrow> 'k) \<Rightarrow> ('r \<Rightarrow> 'r \<Rightarrow> 'r) \<Rightarrow> 'r \<Rightarrow> 'r list \<Rightarrow> 'r list" where
  "tbl_upsert key merge r t =
     (if key r \<in> key ` set t then map (\<lambda>x. if key x = key r then merge x r else x) t
      else t @ [r])"

definition tbl_replace :: "('r \<Rightarrow> 'k) \<Rightarrow> 'r \<Rightarrow> 'r list \<Rightarrow> 'r list" where
  "tbl_replace key r t = filter (\<lambda>x. key x \<noteq> key r) t @ [r]"

definition tbl_update :: "('r \<Rightarrow> bool) \<Rightarrow> ('r \<Rightarrow> 'r) \<Rightarrow> 'r list \<Rightarrow> 'r list" where
  "tbl_update P f t = map (\<lambda>x. if P x then f x else x) t"

lemma tbl_get_key: "tbl_get key t k = Some r \<Longrightarrow> key r = k"
  and tbl_get_mem: "tbl_get key t k = Some r \<Longrightarrow> r \<in> set t"
  by (auto simp: tbl_get_def find_Some_iff)

lemma tbl_get_None: "tbl_get key t k = None \<longleftrightarrow> k \<notin> key ` set t"
  by (auto simp: tbl_get_def find_None_iff)

lemma tbl_get_Nil [simp]: "tbl_get key [] k = None"
  by (simp add: tbl_get_def)

lemma tbl_get_Cons [simp]:
  "tbl_get key (r # t) k = (if key r = k then Some r else tbl_get key t k)"
  by (simp add: tbl_get_def)

lemma tbl_get_append:
  "tbl_get key (t @ u) k = (case tbl_get key t k of None \<Rightarrow> tbl_get key u k | Some r \<Rightarrow> Some r)"
  by (induction t) simp_all

lemma tbl_get_distinct:
  "distinct (map key t) \<Longrightarrow> r \<in> set t \<Longrightarrow> tbl_get key t (key r) = Some r"
  by (induction t) (auto simp: image_iff)

lemma tbl_get_map:
  assumes "\<And>x. key (f x) = key x"
  shows "tbl_get key (map f t) k = map_option f (tbl_get key t k)"
  by (induction t) (simp_all add: assms)

lemma tbl_get_update:
  assumes "\<And>x. key (f x) = key x"
  shows "tbl_get key (tbl_update P f t) k =
    map_option (\<lambda>r. if P r then f r else r) (tbl_get key t k)"
  unfolding tbl_update_def by (rule tbl_get_map) (simp add: assms)

lemma tbl_get_filter_key:
  "tbl_get key (filter (\<lambda>x. P (key x)) t) k = (if P k then tbl_get key t k else None)"
  by (induction t) auto

lemma map_key_update:
  assumes "\<And>x. key (f x) = key x"
  shows "map key (tbl_update P f t) = map key t"
  by (simp add: tbl_update_def assms)

lemma set_tbl_update: "set (tbl_update P f t) = (\<lambda>x. if P x then f x else x) ` set t"
  by (simp add: tbl_update_def)

lemma tbl_get_upsert:
  assumes km: "\<And>x y. key x = key y \<Longrightarrow> key (merge x y) = key y"
  shows "tbl_get key (tbl_upsert key merge r t) k =
    (if k = key r then Some (case tbl_get key t k of None \<Rightarrow> r | Some old \<Rightarrow> merge old r)
     else tbl_get key t k)"
proof (cases "tbl_get key t (key r)")
  case None
  then have "tbl_upsert key merge r t = t @ [r]"
    by (simp add: tbl_upsert_def tbl_get_None)
  then have "tbl_get key (tbl_upsert key merge r t) k =
      (case tbl_get key t k of None \<Rightarrow> tbl_get key [r] k | Some x \<Rightarrow> Some x)"
    by (simp only: tbl_get_append)
  with None show ?thesis
    by (cases "tbl_get key t k") auto
next
  case (Some old)
  let ?f = "\<lambda>x. if key x = key r then merge x r else x"
  have kf: "key (?f x) = key x" for x
    by (simp add: km)
  from Some have "key r \<in> key ` set t"
    using tbl_get_None [of key t "key r"] by (cases "key r \<in> key ` set t") simp_all
  then have "tbl_upsert key merge r t = map ?f t"
    by (simp only: tbl_upsert_def if_True)
  moreover have "tbl_get key (map ?f t) k = map_option ?f (tbl_get key t k)"
    by (rule tbl_get_map) (rule kf)
  moreover have "map_option ?f (tbl_get key t k) =
      (if k = key r then Some (merge old r) else tbl_get key t k)"
  proof (cases "tbl_get key t k")
    case None
    with Some show ?thesis by auto
  next
    case (Some x)
    then have "key x = k" by (rule tbl_get_key)
    with Some \<open>tbl_get key t (key r) = Some old\<close> show ?thesis by auto
  qed
  ultimately show ?thesis
    using Some by (simp only: option.case split: if_split) simp
qed

lemma map_key_upsert:
  assumes km: "\<And>x y. key x = key y \<Longrightarrow> key (merge x y) = key y"
  shows "map key (tbl_upsert key merge r t) =
    (if key r \<in> key ` set t then map key t else map key t @ [key r])"
proof -
  have "key (if key x = key r then merge x r else x) = key x" for x
    by (simp add: km)
  then have "map key (map (\<lambda>x. if key x = key r then merge x r else x) t) = map key t"
    by (induction t) simp_all
  then show ?thesis by (simp add: tbl_upsert_def del: map_map)
qed

lemma tbl_replace_fresh: "key r \<notin> key ` set t \<Longrightarrow> tbl_replace key r t = t @ [r]"
  by (auto simp: tbl_replace_def filter_id_conv image_iff)

lemma tbl_upsert_fresh: "key r \<notin> key ` set t \<Longrightarrow> tbl_upsert key merge r t = t @ [r]"
  by (simp add: tbl_upsert_def)

text \<open>The interface the services rely on: what a lookup returns after a write.\<close>

locale keyed_store =
  fixes key :: "'r \<Rightarrow> 'k"
    and merge :: "'r \<Rightarrow> 'r \<Rightarrow> 'r"
  assumes key_merge: "key x = key y \<Longrightarrow> key (merge x y) = key y"
begin

lemma get_put: "tbl_get key (tbl_upsert key merge r t) k =
    (if k = key r then Some (case tbl_get key t k of None \<Rightarrow> r | Some old \<Rightarrow> merge old r)
     else tbl_get key t k)"
  by (rule tbl_get_upsert) (rule key_merge)

lemma get_put_same:
  "tbl_get key t (key r) = Some old \<Longrightarrow> tbl_get key (tbl_upsert key merge r t) (key r) = Some (merge old r)"
  by (simp add: get_put)

lemma get_put_new:
  "tbl_get key t (key r) = None \<Longrightarrow> tbl_get key (tbl_upsert key merge r t) (key r) = Some r"
  by (simp add: get_put)

lemma get_put_other:
  "k \<noteq> key r \<Longrightarrow> tbl_get key (tbl_upsert key merge r t) k = tbl_get key t k"
  by (simp add: get_put)

lemma map_key_put: "map key (tbl_upsert key merge r t) =
    (if key r \<in> key ` set t then map key t else map key t @ [key r])"
  by (rule map_key_upsert) (rule key_merge)

lemma keys_put: "key ` set (tbl_upsert key merge r t) = insert (key r) (key ` set t)"
  using arg_cong [OF map_key_put, of set] by (auto split: if_splits)

lemma distinct_put: "distinct (map key t) \<Longrightarrow> distinct (map key (tbl_upsert key merge r t))"
  by (simp add: map_key_put)

end

section \<open>Fresh identifiers\<close>

text \<open>
  \<open>uuid4().hex\<close> returns a string not used before. The state carries how many were drawn;
  the n-th one is the hexadecimal numeral of n.
\<close>

definition hex_digit :: "nat \<Rightarrow> char" where
  "hex_digit d = ''0123456789abcdef'' ! d"

fun uuid_hex :: "nat \<Rightarrow> string" where
  "uuid_hex n = (if n < 16 then [hex_digit n] else uuid_hex (n div 16) @ [hex_digit (n mod 16)])"

declare uuid_hex.simps [simp del]

lemma hex_digit_inj:
  assumes "hex_digit a = hex_digit b" "a < 16" "b < 16" shows "a = b"
proof -
  have "distinct ''0123456789abcdef''" by simp
  moreover have "length ''0123456789abcdef'' = 16" by simp
  ultimately show ?thesis
    using assms nth_eq_iff_index_eq unfolding hex_digit_def by metis
qed

lemma uuid_hex_nonempty [simp]: "uuid_hex n \<noteq> []" "[] \<noteq> uuid_hex n"
  by (subst uuid_hex.simps, simp) (subst uuid_hex.simps, simp)

lemma uuid_hex_inj: "uuid_hex m = uuid_hex n \<Longrightarrow> m = n"
proof (induction m arbitrary: n rule: less_induct)
  case (less m)
  show ?case
  proof (cases "m < 16")
    case True
    with less.prems show ?thesis
      by (cases "n < 16") (simp_all add: uuid_hex.simps [of m] uuid_hex.simps [of n] hex_digit_inj)
  next
    case False
    with less.prems have n: "\<not> n < 16"
      by (auto simp: uuid_hex.simps [of m] uuid_hex.simps [of n] split: if_splits)
    with False less.prems have "uuid_hex (m div 16) = uuid_hex (n div 16)"
        and "hex_digit (m mod 16) = hex_digit (n mod 16)"
      by (simp_all add: uuid_hex.simps [of m] uuid_hex.simps [of n])
    then have "m div 16 = n div 16" "m mod 16 = n mod 16"
      using less.IH False hex_digit_inj by auto
    then show ?thesis by (metis div_mult_mod_eq)
  qed
qed

lemma uuid_hex_eq_iff [simp]: "uuid_hex m = uuid_hex n \<longleftrightarrow> m = n"
  using uuid_hex_inj by blast

end
