(* ===== verification/Models.thy ===== *)
theory Models
  imports Prelude
begin

text \<open>
  The kernel's data: \<open>agent_os/kernel/models.py\<close> (process and action control blocks, events,
  signals, capabilities, leases, checkpoints, requests), \<open>kernel/errors.py\<close> and the database
  the services share (\<open>storage/schema.py\<close>). A \<open>datetime\<close> is an integer number of
  microseconds in UTC. The dump of a pydantic model in an event payload is the model itself.
\<close>

type_synonym time = int

section \<open>Processes\<close>

datatype process_state = CREATED | READY | RUNNING | BLOCKED | SUSPENDED | EXITED | FAILED

fun process_state_value :: "process_state \<Rightarrow> string" where
  "process_state_value CREATED = ''created''"
| "process_state_value READY = ''ready''"
| "process_state_value RUNNING = ''running''"
| "process_state_value BLOCKED = ''blocked''"
| "process_state_value SUSPENDED = ''suspended''"
| "process_state_value EXITED = ''exited''"
| "process_state_value FAILED = ''failed''"

text \<open>\<open>ProcessState(value)\<close>: the inverse, failing on any other string.\<close>

definition process_state_of :: "string \<Rightarrow> process_state option" where
  "process_state_of v =
     find (\<lambda>st. process_state_value st = v)
       [CREATED, READY, RUNNING, BLOCKED, SUSPENDED, EXITED, FAILED]"

definition TERMINAL_PROCESS_STATES :: "process_state set" where
  "TERMINAL_PROCESS_STATES = {EXITED, FAILED}"

record pcb =
  p_pid :: string
  p_parent_pid :: "string option"
  p_program_id :: string
  p_state :: process_state
  p_priority :: int
  p_effective_priority :: int
  p_capability_set_id :: string
  p_namespace_id :: string
  p_resource_group_id :: string
  p_program_state_ref :: string
  p_pending_request_id :: "string option"
  p_wait_condition :: "pydict option"
  p_checkpoint_ref :: "string option"
  p_exit_code :: "string option"
  p_result_ref :: "string option"
  p_event_cursor :: int
  p_created_at :: time

section \<open>Actions\<close>

datatype action_state =
  ASubmitted | AAdmitted | ARunning | ACommitted | AFailed | ACancelled | ATimedOut | AUncertain

fun action_state_value :: "action_state \<Rightarrow> string" where
  "action_state_value ASubmitted = ''submitted''"
| "action_state_value AAdmitted = ''admitted''"
| "action_state_value ARunning = ''running''"
| "action_state_value ACommitted = ''committed''"
| "action_state_value AFailed = ''failed''"
| "action_state_value ACancelled = ''cancelled''"
| "action_state_value ATimedOut = ''timed_out''"
| "action_state_value AUncertain = ''uncertain''"

definition TERMINAL_ACTION_STATES :: "action_state set" where
  "TERMINAL_ACTION_STATES = {ACommitted, AFailed, ACancelled, ATimedOut, AUncertain}"

datatype side_effect_class = PURE | IDEMPOTENT | NON_REVERSIBLE | UNKNOWN

fun side_effect_value :: "side_effect_class \<Rightarrow> string" where
  "side_effect_value PURE = ''pure''"
| "side_effect_value IDEMPOTENT = ''idempotent''"
| "side_effect_value NON_REVERSIBLE = ''non_reversible''"
| "side_effect_value UNKNOWN = ''unknown''"

datatype recovery_policy = RETRY | INSPECT | UNCERTAIN | DEAD_LETTER

fun recovery_policy_value :: "recovery_policy \<Rightarrow> string" where
  "recovery_policy_value RETRY = ''retry''"
| "recovery_policy_value INSPECT = ''inspect''"
| "recovery_policy_value UNCERTAIN = ''uncertain''"
| "recovery_policy_value DEAD_LETTER = ''dead_letter''"

datatype lease_mode = Exclusive | Shared

text \<open>
  Sorting pairs of resource and mode compares the mode strings, and \<open>"exclusive" < "shared"\<close>.
\<close>

instantiation lease_mode :: linorder
begin

definition less_eq_lease_mode :: "lease_mode \<Rightarrow> lease_mode \<Rightarrow> bool" where
  "less_eq_lease_mode a b \<longleftrightarrow> a = Exclusive \<or> b = Shared"

definition less_lease_mode :: "lease_mode \<Rightarrow> lease_mode \<Rightarrow> bool" where
  "less_lease_mode a b \<longleftrightarrow> a = Exclusive \<and> b = Shared"

instance
proof
  fix x y z :: lease_mode
  show "x < y \<longleftrightarrow> x \<le> y \<and> \<not> y \<le> x"
    by (cases x; cases y) (simp_all add: less_eq_lease_mode_def less_lease_mode_def)
  show "x \<le> x" by (cases x) (simp_all add: less_eq_lease_mode_def)
  show "x \<le> y \<Longrightarrow> y \<le> z \<Longrightarrow> x \<le> z"
    by (cases x; cases y; cases z) (simp_all add: less_eq_lease_mode_def)
  show "x \<le> y \<Longrightarrow> y \<le> x \<Longrightarrow> x = y"
    by (cases x; cases y) (simp_all add: less_eq_lease_mode_def)
  show "x \<le> y \<or> y \<le> x"
    by (cases x; cases y) (simp_all add: less_eq_lease_mode_def)
qed

end

fun mode_value :: "lease_mode \<Rightarrow> string" where
  "mode_value Exclusive = ''exclusive''"
| "mode_value Shared = ''shared''"

text \<open>A resource claim: \<open>{"resource_id": ..., "mode": ...}\<close>, the mode defaulting to exclusive.\<close>

record claim =
  cl_resource_id :: string
  cl_mode_field :: "lease_mode option"

definition cl_mode :: "claim \<Rightarrow> lease_mode" where
  "cl_mode c = (case cl_mode_field c of None \<Rightarrow> Exclusive | Some m \<Rightarrow> m)"

record acb =
  a_action_id :: string
  a_pid :: string
  a_device_type :: string
  a_operation :: string
  a_arguments :: pydict
  a_state :: action_state
  a_resource_claims :: "claim list"
  a_lease_ids :: "string list"
  a_fencing_tokens :: "(string \<times> int) list"
  a_idempotency_key :: "string option"
  a_side_effect_class :: side_effect_class
  a_recovery_policy :: recovery_policy
  a_retry_count :: int
  a_timeout_seconds :: "int option"
  a_result :: "pydict option"
  a_error :: "pydict option"
  a_submitted_at :: time
  a_finished_at :: "time option"

section \<open>Signals, capabilities, leases, checkpoints\<close>

record signal =
  sg_signal_id :: string
  sg_target_pid :: string
  sg_signal_type :: string
  sg_source_pid :: "string option"
  sg_payload :: pydict
  sg_created_at :: time
  sg_consumed :: bool

record capability =
  cp_capability_id :: string
  cp_resource_pattern :: string
  cp_operations :: "string list"
  cp_constraints :: pydict

record capability_set =
  cs_set_id :: string
  cs_pid :: string
  cs_capabilities :: "capability list"

record lease =
  l_lease_id :: string
  l_resource_id :: string
  l_owner_pid :: string
  l_mode :: lease_mode
  l_fencing_token :: int
  l_acquired_at :: time
  l_expires_at :: time
  l_renewable :: bool
  l_revocable :: bool

record waiter =
  w_pid :: string
  w_resource_id :: string
  w_wait_since :: time

record checkpoint =
  ck_checkpoint_id :: string
  ck_pid :: string
  ck_journal_offset :: int
  ck_process_sequence :: int
  ck_pcb_snapshot :: pcb
  ck_program_state_ref :: string
  ck_wait_condition :: "pydict option"
  ck_mailbox_cursor :: int
  ck_created_at :: time

section \<open>Events\<close>

text \<open>
  The payload of an event is a dictionary, or the dump of a model. \<open>PAcbLegacy\<close> is an
  \<open>ACTION_SUBMITTED\<close> dump written before \<open>retry_count\<close> was recorded.
\<close>

text \<open>
  The fields \<open>causation_id\<close> and \<open>correlation_id\<close> of an event are \<open>None\<close> wherever the kernel
  builds one and nothing reads them; they are left out. A \<open>datetime\<close> inside a payload
  dictionary is its number of microseconds.
\<close>

datatype payload =
    PPcb pcb
  | PAcb acb
  | PAcbLegacy acb
  | PSignal signal
  | PLease lease
  | PCapSet capability_set
  | PCapGrant string capability
  | PDict pydict

record event =
  ev_event_id :: string
  ev_journal_offset :: int
  ev_pid :: string
  ev_process_sequence :: int
  ev_event_type :: string
  ev_payload :: payload
  ev_created_at :: time

definition payload_get :: "event \<Rightarrow> string \<Rightarrow> val" where
  "payload_get ev k = (case ev_payload ev of PDict d \<Rightarrow> dict_get d k | _ \<Rightarrow> VNone)"

section \<open>Errors\<close>

datatype kerror =
    KernelInvariantViolation string
  | IllegalStateTransition string string string
  | CapabilityDenied string string string
  | LeaseAcquisitionFailed string string
  | TerminalStateError string string
  | WaitConditionMissing string
  | ValueError string
  | IntegrityError string
  | OtherError string string

text \<open>\<open>str(exc)\<close> and \<open>type(exc).__name__\<close>, which end up in event payloads.\<close>

fun err_str :: "kerror \<Rightarrow> string" where
  "err_str (KernelInvariantViolation m) = m"
| "err_str (IllegalStateTransition i old new) =
     ''Illegal transition '' @ old @ [CHR 0xE2, CHR 0x86, CHR 0x92] @ new @ '' for '' @ i
       @ '': no transition defined from '' @ old @ '' to '' @ new"
| "err_str (CapabilityDenied p r oper) =
     ''Capability denied for pid='' @ p @ '' resource='' @ r @ '' op='' @ oper"
| "err_str (LeaseAcquisitionFailed p r) =
     ''Lease acquisition failed for pid='' @ p @ '' resource='' @ r"
| "err_str (TerminalStateError i st) = i @ '' is in terminal state '' @ st"
| "err_str (WaitConditionMissing p) = ''Cannot block pid='' @ p @ '' without wait_condition''"
| "err_str (ValueError m) = m"
| "err_str (IntegrityError m) = m"
| "err_str (OtherError t m) = m"

fun err_type :: "kerror \<Rightarrow> string" where
  "err_type (KernelInvariantViolation m) = ''KernelInvariantViolation''"
| "err_type (IllegalStateTransition i old new) = ''IllegalStateTransition''"
| "err_type (CapabilityDenied p r oper) = ''CapabilityDenied''"
| "err_type (LeaseAcquisitionFailed p r) = ''LeaseAcquisitionFailed''"
| "err_type (TerminalStateError i st) = ''TerminalStateError''"
| "err_type (WaitConditionMissing p) = ''WaitConditionMissing''"
| "err_type (ValueError m) = ''ValueError''"
| "err_type (IntegrityError m) = ''IntegrityError''"
| "err_type (OtherError t m) = t"

section \<open>The kernel state\<close>

text \<open>
  The tables of the database in insertion order, the wall clock and logical clock, and the
  number of identifiers drawn so far. \<open>k_next_offset\<close> is the \<open>journal_meta\<close> row, absent when
  the row is missing.
\<close>

record kstate =
  k_journal :: "event list"
  k_next_offset :: "int option"
  k_processes :: "pcb list"
  k_program_states :: "string \<rightharpoonup> pydict"
  k_actions :: "acb list"
  k_leases :: "lease list"
  k_fences :: "string \<rightharpoonup> int"
  k_waiters :: "waiter list"
  k_signals :: "signal list"
  k_capability_sets :: "capability_set list"
  k_checkpoints :: "checkpoint list"
  k_now :: time
  k_logical :: int
  k_uuids :: nat

type_synonym 'a kop = "(kerror, 'a, kstate) op"

definition init_kstate :: kstate where
  "init_kstate = \<lparr>k_journal = [], k_next_offset = Some 0, k_processes = [],
     k_program_states = Map.empty, k_actions = [], k_leases = [], k_fences = Map.empty,
     k_waiters = [], k_signals = [], k_capability_sets = [], k_checkpoints = [],
     k_now = 0, k_logical = 0, k_uuids = 0\<rparr>"

definition uuid4 :: "string kop" where
  "uuid4 s = (Inr (uuid_hex (k_uuids s)), s\<lparr>k_uuids := Suc (k_uuids s)\<rparr>)"

definition clock_tick :: "int kop" where
  "clock_tick s = (Inr (k_logical s + 1), s\<lparr>k_logical := k_logical s + 1\<rparr>)"

lemma process_state_of_value [simp]: "process_state_of (process_state_value st) = Some st"
  by (cases st) (simp_all add: process_state_of_def)

lemma process_state_value_inj [simp]:
  "process_state_value a = process_state_value b \<longleftrightarrow> a = b"
  by (metis option.inject process_state_of_value)

lemma terminal_process_iff [simp]: "st \<in> TERMINAL_PROCESS_STATES \<longleftrightarrow> st = EXITED \<or> st = FAILED"
  by (simp add: TERMINAL_PROCESS_STATES_def)

lemma terminal_action_iff:
  "st \<in> TERMINAL_ACTION_STATES \<longleftrightarrow>
     st \<noteq> ASubmitted \<and> st \<noteq> AAdmitted \<and> st \<noteq> ARunning"
  by (cases st) (simp_all add: TERMINAL_ACTION_STATES_def)

end
