(* ===== verification/StateMachine.thy ===== *)
theory StateMachine
  imports Models
begin

text \<open>
  The explicit state machines of \<open>agent_os/kernel/state_machine.py\<close>: the two transition
  tables, the validation with its guards, and the application of a transition to a control
  block. A locale states what both machines have in common, that terminal states are absorbing.
\<close>

section \<open>Process state machine\<close>

definition PROCESS_TRANSITIONS :: "((process_state \<times> process_state) \<times> string) list" where
  "PROCESS_TRANSITIONS =
    [((CREATED, READY), ''spawn_complete''),
     ((READY, RUNNING), ''scheduled''),
     ((RUNNING, READY), ''yielded''),
     ((RUNNING, BLOCKED), ''blocked''),
     ((BLOCKED, READY), ''woken''),
     ((READY, SUSPENDED), ''paused''),
     ((BLOCKED, SUSPENDED), ''paused''),
     ((SUSPENDED, READY), ''resumed''),
     ((RUNNING, EXITED), ''exit''),
     ((READY, EXITED), ''exit''),
     ((BLOCKED, EXITED), ''exit''),
     ((RUNNING, FAILED), ''error''),
     ((READY, FAILED), ''error''),
     ((BLOCKED, FAILED), ''error''),
     ((SUSPENDED, FAILED), ''error'')]"

definition validate_process_transition ::
    "pcb \<Rightarrow> process_state \<Rightarrow> pydict option \<Rightarrow> kerror + string" where
  "validate_process_transition p target wait =
     (if p_state p \<in> TERMINAL_PROCESS_STATES
      then Inl (TerminalStateError (p_pid p) (process_state_value (p_state p)))
      else case map_of PROCESS_TRANSITIONS (p_state p, target) of
        None \<Rightarrow> Inl (IllegalStateTransition (p_pid p) (process_state_value (p_state p))
                     (process_state_value target))
      | Some reason \<Rightarrow>
          if target = BLOCKED \<and> wait = None then Inl (WaitConditionMissing (p_pid p))
          else Inr reason)"

definition apply_process_transition ::
    "pcb \<Rightarrow> process_state \<Rightarrow> pydict option \<Rightarrow> kerror + pcb \<times> string" where
  "apply_process_transition p target wait =
     (case validate_process_transition p target wait of
        Inl e \<Rightarrow> Inl e
      | Inr reason \<Rightarrow>
          let p' = p\<lparr>p_state := target\<rparr>
          in if target = BLOCKED then Inr (p'\<lparr>p_wait_condition := wait\<rparr>, reason)
             else if target = READY \<or> target = RUNNING \<or> target \<in> TERMINAL_PROCESS_STATES
             then Inr (p'\<lparr>p_wait_condition := None\<rparr>, reason)
             else Inr (p', reason))"

section \<open>Action state machine\<close>

definition ACTION_TRANSITIONS :: "((action_state \<times> action_state) \<times> string) list" where
  "ACTION_TRANSITIONS =
    [((ASubmitted, AAdmitted), ''admission_pass''),
     ((ASubmitted, AFailed), ''admission_fail''),
     ((AAdmitted, ARunning), ''dispatched''),
     ((AAdmitted, AFailed), ''dispatch_precondition_failed''),
     ((AAdmitted, ACancelled), ''cancelled_pre_dispatch''),
     ((ARunning, ACommitted), ''driver_success''),
     ((ARunning, AFailed), ''driver_failure''),
     ((ARunning, ATimedOut), ''deadline_exceeded''),
     ((ARunning, ACancelled), ''cancelled_in_flight''),
     ((ARunning, AUncertain), ''driver_unknown'')]"

definition validate_action_transition :: "acb \<Rightarrow> action_state \<Rightarrow> kerror + string" where
  "validate_action_transition a target =
     (if a_state a \<in> TERMINAL_ACTION_STATES
      then Inl (TerminalStateError (a_action_id a) (action_state_value (a_state a)))
      else case map_of ACTION_TRANSITIONS (a_state a, target) of
        None \<Rightarrow> Inl (IllegalStateTransition (a_action_id a) (action_state_value (a_state a))
                     (action_state_value target))
      | Some reason \<Rightarrow> Inr reason)"

definition apply_action_transition :: "acb \<Rightarrow> action_state \<Rightarrow> kerror + acb \<times> string" where
  "apply_action_transition a target =
     (case validate_action_transition a target of
        Inl e \<Rightarrow> Inl e
      | Inr reason \<Rightarrow> Inr (a\<lparr>a_state := target\<rparr>, reason))"

section \<open>What both machines promise\<close>

text \<open>
  A machine over control blocks: where a block is, which states are terminal, and the effect of
  asking for a state. The contract: a terminal block accepts no request; an accepted request
  ends in the state asked for, along an edge of the table.
\<close>

locale control_machine =
  fixes state_of :: "'b \<Rightarrow> 'q"
    and terminal :: "'q set"
    and edges :: "('q \<times> 'q) set"
    and request :: "'b \<Rightarrow> 'i \<times> 'q \<Rightarrow> 'e + 'b"
  assumes request_target: "request b (i, q) = Inr b' \<Longrightarrow> state_of b' = q"
    and request_edge: "request b (i, q) = Inr b' \<Longrightarrow> (state_of b, q) \<in> edges"
    and edges_leave: "(q, q') \<in> edges \<Longrightarrow> q \<notin> terminal"
begin

lemma terminal_rejects: "state_of b \<in> terminal \<Longrightarrow> \<exists>e. request b (i, q) = Inl e"
  using request_edge edges_leave by (cases "request b (i, q)") blast+

fun run :: "'b \<Rightarrow> ('i \<times> 'q) list \<Rightarrow> 'b" where
  "run b [] = b"
| "run b (r # rs) = (case request b r of Inl _ \<Rightarrow> run b rs | Inr b' \<Rightarrow> run b' rs)"

lemma run_terminal: "state_of b \<in> terminal \<Longrightarrow> run b rs = b"
proof (induction rs)
  case Nil
  then show ?case by simp
next
  case (Cons r rs)
  obtain i q where r: "r = (i, q)" by (cases r)
  obtain e where "request b (i, q) = Inl e"
    using terminal_rejects [OF Cons.prems] by blast
  with Cons r show ?case by simp
qed

lemma run_path: "(state_of b, state_of (run b rs)) \<in> edges\<^sup>*"
proof (induction rs arbitrary: b)
  case Nil
  then show ?case by simp
next
  case (Cons r rs)
  obtain i q where r: "r = (i, q)" by (cases r)
  show ?case
  proof (cases "request b (i, q)")
    case (Inl e)
    with r Cons.IH show ?thesis by simp
  next
    case (Inr b')
    then have "(state_of b, state_of b') \<in> edges"
      using request_edge request_target by metis
    then have "(state_of b, state_of (run b' rs)) \<in> edges\<^sup>*"
      using Cons.IH by (rule converse_rtrancl_into_rtrancl)
    with r Inr show ?thesis by simp
  qed
qed

text \<open>At most one terminal state is ever entered: runs that reach one end there.\<close>

lemma run_terminal_once:
  assumes "state_of (run b rs) \<in> terminal"
  shows "run b (rs @ rs') = run b rs"
  using assms
proof (induction rs arbitrary: b)
  case Nil
  then show ?case by (simp add: run_terminal)
next
  case (Cons r rs)
  then show ?case by (cases "request b r") simp_all
qed

end

definition process_request :: "pcb \<Rightarrow> pydict option \<times> process_state \<Rightarrow> kerror + pcb" where
  "process_request p r =
     (case apply_process_transition p (snd r) (fst r) of Inl e \<Rightarrow> Inl e | Inr (p', _) \<Rightarrow> Inr p')"

definition action_request :: "acb \<Rightarrow> unit \<times> action_state \<Rightarrow> kerror + acb" where
  "action_request a r =
     (case apply_action_transition a (snd r) of Inl e \<Rightarrow> Inl e | Inr (a', _) \<Rightarrow> Inr a')"

abbreviation process_edges :: "(process_state \<times> process_state) set" where
  "process_edges \<equiv> set (map fst PROCESS_TRANSITIONS)"

abbreviation action_edges :: "(action_state \<times> action_state) set" where
  "action_edges \<equiv> set (map fst ACTION_TRANSITIONS)"

lemma apply_process_InrD:
  assumes "apply_process_transition p target wait = Inr (p', reason)"
  shows "p_state p' = target" "p_pid p' = p_pid p" "(p_state p, target) \<in> process_edges"
    "p_state p \<notin> TERMINAL_PROCESS_STATES" "target = BLOCKED \<Longrightarrow> wait \<noteq> None"
    "p' = p\<lparr>p_state := p_state p', p_wait_condition := p_wait_condition p'\<rparr>"
  using assms
  by (auto simp: apply_process_transition_def validate_process_transition_def Let_def
      split: if_splits option.splits dest: map_of_Some_key)

lemma apply_action_InrD:
  assumes "apply_action_transition a target = Inr (a', reason)"
  shows "a' = a\<lparr>a_state := target\<rparr>" "(a_state a, target) \<in> action_edges"
    "a_state a \<notin> TERMINAL_ACTION_STATES"
  using assms
  by (auto simp: apply_action_transition_def validate_action_transition_def
      split: if_splits option.splits dest: map_of_Some_key)

lemma apply_action_eq_Inr:
  "apply_action_transition a target = Inr (a\<lparr>a_state := target\<rparr>, reason) \<longleftrightarrow>
     map_of ACTION_TRANSITIONS (a_state a, target) = Some reason"
  by (cases "a_state a"; cases target)
    (simp_all add: apply_action_transition_def validate_action_transition_def
      ACTION_TRANSITIONS_def TERMINAL_ACTION_STATES_def)

lemma process_edges_nonterminal: "(q, q') \<in> process_edges \<Longrightarrow> q \<notin> TERMINAL_PROCESS_STATES"
  by (auto simp: PROCESS_TRANSITIONS_def)

lemma action_edges_nonterminal: "(q, q') \<in> action_edges \<Longrightarrow> q \<notin> TERMINAL_ACTION_STATES"
  by (auto simp: ACTION_TRANSITIONS_def TERMINAL_ACTION_STATES_def)

interpretation pm: control_machine p_state TERMINAL_PROCESS_STATES process_edges process_request
proof unfold_locales
  fix b i q b'
  assume "process_request b (i, q) = Inr b'"
  then obtain reason where "apply_process_transition b q i = Inr (b', reason)"
    by (auto simp: process_request_def split: sum.splits)
  then show "p_state b' = q" "(p_state b, q) \<in> process_edges"
    by (rule apply_process_InrD)+
qed (rule process_edges_nonterminal)

interpretation am: control_machine a_state TERMINAL_ACTION_STATES action_edges action_request
proof unfold_locales
  fix b i q b'
  assume "action_request b (i, q) = Inr b'"
  then obtain reason where *: "apply_action_transition b q = Inr (b', reason)"
    by (auto simp: action_request_def split: sum.splits)
  show "a_state b' = q" using apply_action_InrD(1) [OF *] by simp
  show "(a_state b, q) \<in> action_edges" using * by (rule apply_action_InrD)
qed (rule action_edges_nonterminal)

end
