(* ===== verification/Journal.thy ===== *)
theory Journal
  imports StateMachine
begin

text \<open>
  The append-only journal, \<open>agent_os/services/journal.py\<close>: allocation of the global offset and
  of the per-process sequence, idempotent append, reads. The invariant \<open>journal_ok\<close> is the list
  of key invariants at the head of that file; every append keeps it, and an operation that only
  journals touches nothing else of the state.
\<close>

section \<open>Operations\<close>

text \<open>\<open>KernelEvent(pid=..., event_type=..., payload=...)\<close> with its default id and timestamp.\<close>

definition mk_event_at :: "time \<Rightarrow> string \<Rightarrow> string \<Rightarrow> payload \<Rightarrow> event kop" where
  "mk_event_at ts pid ty pl =
     bind_op uuid4 (\<lambda>i. ret \<lparr>ev_event_id = i, ev_journal_offset = 0, ev_pid = pid,
       ev_process_sequence = 0, ev_event_type = ty, ev_payload = pl, ev_created_at = ts\<rparr>)"

definition mk_event :: "string \<Rightarrow> string \<Rightarrow> payload \<Rightarrow> event kop" where
  "mk_event pid ty pl = bind_op (gets k_now) (\<lambda>ts. mk_event_at ts pid ty pl)"

text \<open>\<open>SELECT MAX(process_sequence) ... WHERE pid = ?\<close>, plus one, or 0 when there is none.\<close>

definition next_sequence :: "event list \<Rightarrow> string \<Rightarrow> int" where
  "next_sequence j pid =
     (case map ev_process_sequence (filter (\<lambda>e. ev_pid e = pid) j) of
        [] \<Rightarrow> 0
      | x # xs \<Rightarrow> fold max xs x + 1)"

text \<open>The body of the append loop: one event through an open transaction.\<close>

definition append_one :: "event \<Rightarrow> event kop" where
  "append_one ev s =
     (case tbl_get ev_event_id (k_journal s) (ev_event_id ev) of
        Some old \<Rightarrow>
          (Inr (ev\<lparr>ev_journal_offset := ev_journal_offset old,
                   ev_process_sequence := ev_process_sequence old\<rparr>), s)
      | None \<Rightarrow>
          (case k_next_offset s of
             None \<Rightarrow> (Inl (KernelInvariantViolation ''journal_meta.next_offset is missing''), s)
           | Some off \<Rightarrow>
               let ev' = ev\<lparr>ev_journal_offset := off,
                            ev_process_sequence := next_sequence (k_journal s) (ev_pid ev)\<rparr>
               in if off \<in> ev_journal_offset ` set (k_journal s)
                  then (Inl (IntegrityError ''UNIQUE constraint failed: journal_events.journal_offset''), s)
                  else (Inr ev', s\<lparr>k_journal := k_journal s @ [ev'], k_next_offset := Some (off + 1)\<rparr>)))"

definition append_events_tx :: "event list \<Rightarrow> event list kop" where
  "append_events_tx events =
     fold_op (\<lambda>ev results. bind_op (append_one ev) (\<lambda>ev'. ret (results @ [ev']))) events []"

definition append_events_atomically :: "event list \<Rightarrow> event list kop" where
  "append_events_atomically events =
     (if events = [] then ret [] else transaction (append_events_tx events))"

definition append_event :: "event \<Rightarrow> event kop" where
  "append_event ev = bind_op (append_events_atomically [ev]) (\<lambda>evs. ret (hd evs))"

text \<open>Building an event and appending it, in its own or in the surrounding transaction.\<close>

definition emit :: "string \<Rightarrow> string \<Rightarrow> payload \<Rightarrow> event kop" where
  "emit pid ty pl = bind_op (mk_event pid ty pl) append_event"

fun mk_events :: "(string \<times> string \<times> payload) list \<Rightarrow> event list kop" where
  "mk_events [] = ret []"
| "mk_events ((pid, ty, pl) # es) =
     bind_op (mk_event pid ty pl) (\<lambda>ev. bind_op (mk_events es) (\<lambda>evs. ret (ev # evs)))"

definition emit_tx :: "(string \<times> string \<times> payload) list \<Rightarrow> event list kop" where
  "emit_tx es = bind_op (mk_events es) append_events_tx"

definition emit_tx_at :: "time \<Rightarrow> string \<Rightarrow> string \<Rightarrow> payload \<Rightarrow> event list kop" where
  "emit_tx_at ts pid ty pl = bind_op (mk_event_at ts pid ty pl) (\<lambda>ev. append_events_tx [ev])"

section \<open>Reads\<close>

definition read_from_offset :: "int \<Rightarrow> nat \<Rightarrow> kstate \<Rightarrow> event list" where
  "read_from_offset off limit s =
     take limit (sort_key ev_journal_offset (filter (\<lambda>e. off \<le> ev_journal_offset e) (k_journal s)))"

definition read_last_for_pid_since :: "string \<Rightarrow> int \<Rightarrow> kstate \<Rightarrow> event option" where
  "read_last_for_pid_since pid off s =
     (case rev (sort_key ev_journal_offset
        (filter (\<lambda>e. ev_pid e = pid \<and> off \<le> ev_journal_offset e) (k_journal s))) of
        [] \<Rightarrow> None
      | e # _ \<Rightarrow> Some e)"

definition read_all :: "kstate \<Rightarrow> event list" where
  "read_all = read_from_offset 0 (10 ^ 9)"

definition next_offset :: "kstate \<Rightarrow> int" where
  "next_offset s = (case k_next_offset s of None \<Rightarrow> 0 | Some off \<Rightarrow> off)"

definition last_sequence_for_pid :: "string \<Rightarrow> kstate \<Rightarrow> int" where
  "last_sequence_for_pid pid s = next_sequence (k_journal s) pid"

section \<open>Only the journal changes\<close>

definition journal_only :: "kstate \<Rightarrow> kstate \<Rightarrow> bool" where
  "journal_only s t \<longleftrightarrow>
     k_processes t = k_processes s \<and> k_program_states t = k_program_states s \<and>
     k_actions t = k_actions s \<and> k_leases t = k_leases s \<and> k_fences t = k_fences s \<and>
     k_waiters t = k_waiters s \<and> k_signals t = k_signals s \<and>
     k_capability_sets t = k_capability_sets s \<and> k_checkpoints t = k_checkpoints s \<and>
     k_now t = k_now s \<and> k_logical t = k_logical s"

lemma journal_only_intro [intro]:
  "journal_only s (s\<lparr>k_journal := j, k_next_offset := n, k_uuids := u\<rparr>)"
  "journal_only s (s\<lparr>k_journal := j, k_next_offset := n\<rparr>)"
  "journal_only s (s\<lparr>k_uuids := u\<rparr>)"
  by (simp_all add: journal_only_def)

lemma journal_only_sel:
  assumes "journal_only s t"
  shows "k_processes t = k_processes s" "k_program_states t = k_program_states s"
    "k_actions t = k_actions s" "k_leases t = k_leases s" "k_fences t = k_fences s"
    "k_waiters t = k_waiters s" "k_signals t = k_signals s"
    "k_capability_sets t = k_capability_sets s" "k_checkpoints t = k_checkpoints s"
    "k_now t = k_now s" "k_logical t = k_logical s"
  using assms unfolding journal_only_def by simp_all

interpretation jo: op_preorder journal_only
  by unfold_locales (simp_all add: journal_only_def)

lemma jo_uuid4: "steps journal_only uuid4"
  by (auto simp: steps_def uuid4_def)

lemma jo_append_one: "steps journal_only (append_one ev)"
  by (auto simp: steps_def append_one_def Let_def jo.R_refl split: option.splits)

lemma jo_mk_event: "steps journal_only (mk_event pid ty pl)" "steps journal_only (mk_event_at ts pid ty pl)"
  unfolding mk_event_def mk_event_at_def by (intro jo.steps_rules jo_uuid4)+

lemma jo_mk_events: "steps journal_only (mk_events es)"
  by (induction es rule: mk_events.induct) (auto intro: jo.steps_rules jo_mk_event)

lemma jo_append_events_tx: "steps journal_only (append_events_tx evs)"
  unfolding append_events_tx_def by (intro jo.steps_rules jo_append_one)

lemma jo_append_event: "steps journal_only (append_event ev)"
  unfolding append_event_def append_events_atomically_def
  by (auto intro!: jo.steps_rules jo_append_events_tx)

lemma jo_emit: "steps journal_only (emit pid ty pl)"
  unfolding emit_def by (intro jo.steps_rules jo_mk_event jo_append_event)

lemma jo_emit_tx: "steps journal_only (emit_tx es)" "steps journal_only (emit_tx_at ts pid ty pl)"
  unfolding emit_tx_def emit_tx_at_def
  by (intro jo.steps_rules jo_mk_event jo_mk_events jo_append_events_tx)+

lemmas journal_ops = jo_uuid4 jo_mk_event jo_mk_events jo_append_events_tx jo_append_event
  jo_emit jo_emit_tx

section \<open>The journal invariant\<close>

text \<open>
  Offsets are 0, 1, 2, \dots in order of append and \<open>next_offset\<close> is the next one; the sequence
  numbers of each process are 0, 1, 2, \dots; event ids are distinct, and no future id is used.
\<close>

definition journal_ok :: "kstate \<Rightarrow> bool" where
  "journal_ok s \<longleftrightarrow>
     map ev_journal_offset (k_journal s) = map int [0..<length (k_journal s)] \<and>
     k_next_offset s = Some (int (length (k_journal s))) \<and>
     (\<forall>pid. map ev_process_sequence (filter (\<lambda>e. ev_pid e = pid) (k_journal s)) =
        map int [0..<length (filter (\<lambda>e. ev_pid e = pid) (k_journal s))]) \<and>
     distinct (map ev_event_id (k_journal s)) \<and>
     (\<forall>n \<ge> k_uuids s. uuid_hex n \<notin> ev_event_id ` set (k_journal s))"

lemma fold_max_upt: "fold max (map int [a..<b]) (int a) = int (if a < b then b - 1 else a)"
proof (induction b)
  case 0
  then show ?case by simp
next
  case (Suc b)
  then show ?case by (cases "a < b") (auto simp: upt_Suc_append)
qed

lemma next_sequence_ok:
  assumes "map ev_process_sequence (filter (\<lambda>e. ev_pid e = pid) j) =
    map int [0..<length (filter (\<lambda>e. ev_pid e = pid) j)]"
  shows "next_sequence j pid = int (length (filter (\<lambda>e. ev_pid e = pid) j))"
proof (cases "length (filter (\<lambda>e. ev_pid e = pid) j)")
  case 0
  then show ?thesis by (simp add: next_sequence_def)
next
  case (Suc n)
  then have "map ev_process_sequence (filter (\<lambda>e. ev_pid e = pid) j) = 0 # map int [1..<Suc n]"
    using assms by (simp add: upt_conv_Cons del: upt_Suc)
  moreover have "fold max (map int [1..<Suc n]) 0 = int n"
  proof (cases n)
    case (Suc m)
    then have "fold max (map int [1..<Suc n]) 0 = fold max (map int [1..<Suc n]) (int 1)"
      by (simp add: upt_conv_Cons del: upt_Suc)
    also have "\<dots> = int n" using Suc by (simp only: fold_max_upt) simp
    finally show ?thesis .
  qed simp
  ultimately show ?thesis using Suc by (simp add: next_sequence_def)
qed

lemma journal_ok_offsets:
  "journal_ok s \<Longrightarrow> ev_journal_offset ` set (k_journal s) = int ` {0..<length (k_journal s)}"
  unfolding journal_ok_def by (metis atLeastLessThan_upt image_set)

text \<open>A well-formed journal takes a fresh event at its end, and stays well formed.\<close>

lemma append_one_ok:
  assumes ok: "journal_ok s" and fresh: "ev_event_id ev \<notin> ev_event_id ` set (k_journal s)"
  shows "append_one ev s =
    (Inr (ev\<lparr>ev_journal_offset := int (length (k_journal s)),
             ev_process_sequence := int (length (filter (\<lambda>e. ev_pid e = ev_pid ev) (k_journal s)))\<rparr>),
     s\<lparr>k_journal := k_journal s @ [ev\<lparr>ev_journal_offset := int (length (k_journal s)),
             ev_process_sequence := int (length (filter (\<lambda>e. ev_pid e = ev_pid ev) (k_journal s)))\<rparr>],
       k_next_offset := Some (int (length (k_journal s)) + 1)\<rparr>)"
proof -
  have "tbl_get ev_event_id (k_journal s) (ev_event_id ev) = None"
    using fresh by (simp add: tbl_get_None)
  moreover have "int (length (k_journal s)) \<notin> ev_journal_offset ` set (k_journal s)"
    using journal_ok_offsets [OF ok] by auto
  moreover have "next_sequence (k_journal s) (ev_pid ev) =
      int (length (filter (\<lambda>e. ev_pid e = ev_pid ev) (k_journal s)))"
    using ok unfolding journal_ok_def by (blast intro: next_sequence_ok)
  ultimately show ?thesis
    using ok by (simp add: append_one_def journal_ok_def Let_def)
qed

lemma journal_ok_append:
  assumes "journal_ok s" and "ev_event_id ev \<notin> ev_event_id ` set (k_journal s)"
    and "\<forall>n \<ge> k_uuids s. uuid_hex n \<noteq> ev_event_id ev"
    and "ev_journal_offset ev = int (length (k_journal s))"
    and "ev_process_sequence ev = int (length (filter (\<lambda>e. ev_pid e = ev_pid ev) (k_journal s)))"
  shows "journal_ok (s\<lparr>k_journal := k_journal s @ [ev],
    k_next_offset := Some (int (length (k_journal s)) + 1)\<rparr>)"
  using assms by (auto simp: journal_ok_def)

lemma journal_ok_uuid: "journal_ok s \<Longrightarrow> journal_ok (s\<lparr>k_uuids := Suc (k_uuids s)\<rparr>)"
  by (simp add: journal_ok_def)

text \<open>The event an emission writes.\<close>

definition next_event :: "kstate \<Rightarrow> time \<Rightarrow> string \<Rightarrow> string \<Rightarrow> payload \<Rightarrow> event" where
  "next_event s ts pid ty pl =
     \<lparr>ev_event_id = uuid_hex (k_uuids s), ev_journal_offset = int (length (k_journal s)),
      ev_pid = pid, ev_process_sequence = int (length (filter (\<lambda>e. ev_pid e = pid) (k_journal s))),
      ev_event_type = ty, ev_payload = pl, ev_created_at = ts\<rparr>"

definition journaled :: "kstate \<Rightarrow> event \<Rightarrow> kstate" where
  "journaled s ev = s\<lparr>k_journal := k_journal s @ [ev],
     k_next_offset := Some (int (length (k_journal s)) + 1), k_uuids := Suc (k_uuids s)\<rparr>"

lemma journal_ok_fresh: "journal_ok s \<Longrightarrow> uuid_hex (k_uuids s) \<notin> ev_event_id ` set (k_journal s)"
  by (simp add: journal_ok_def)

lemma emit_tx_at_ok:
  assumes ok: "journal_ok s"
  shows "emit_tx_at ts pid ty pl s =
    (Inr [next_event s ts pid ty pl], journaled s (next_event s ts pid ty pl))"
  using append_one_ok [OF journal_ok_uuid [OF ok]] journal_ok_fresh [OF ok]
  by (simp add: emit_tx_at_def mk_event_at_def append_events_tx_def bind_op_def uuid4_def
      next_event_def journaled_def)

lemma emit_ok:
  assumes ok: "journal_ok s"
  shows "emit pid ty pl s =
    (Inr (next_event s (k_now s) pid ty pl), journaled s (next_event s (k_now s) pid ty pl))"
  using append_one_ok [OF journal_ok_uuid [OF ok]] journal_ok_fresh [OF ok]
  by (simp add: emit_def mk_event_def mk_event_at_def append_event_def append_events_atomically_def
      append_events_tx_def bind_op_def transaction_def uuid4_def next_event_def journaled_def)

lemma journaled_ok: "journal_ok s \<Longrightarrow> journal_ok (journaled s (next_event s ts pid ty pl))"
  by (auto simp: journal_ok_def journaled_def next_event_def)

lemma journaled_sel [simp]:
  "k_journal (journaled s ev) = k_journal s @ [ev]"
  "k_processes (journaled s ev) = k_processes s" "k_actions (journaled s ev) = k_actions s"
  "k_leases (journaled s ev) = k_leases s" "k_fences (journaled s ev) = k_fences s"
  "k_signals (journaled s ev) = k_signals s" "k_waiters (journaled s ev) = k_waiters s"
  "k_capability_sets (journaled s ev) = k_capability_sets s"
  "k_program_states (journaled s ev) = k_program_states s"
  "k_checkpoints (journaled s ev) = k_checkpoints s"
  "k_now (journaled s ev) = k_now s" "k_uuids (journaled s ev) = Suc (k_uuids s)"
  by (simp_all add: journaled_def)

lemma next_event_sel [simp]:
  "ev_pid (next_event s ts pid ty pl) = pid" "ev_event_type (next_event s ts pid ty pl) = ty"
  "ev_payload (next_event s ts pid ty pl) = pl" "ev_created_at (next_event s ts pid ty pl) = ts"
  "ev_event_id (next_event s ts pid ty pl) = uuid_hex (k_uuids s)"
  "ev_journal_offset (next_event s ts pid ty pl) = int (length (k_journal s))"
  by (simp_all add: next_event_def)

section \<open>Several events in one transaction\<close>

text \<open>What the caller put into an event, as opposed to the place the journal gave it.\<close>

definition content :: "event \<Rightarrow> string \<times> string \<times> payload" where
  "content ev = (ev_pid ev, ev_event_type ev, ev_payload ev)"

lemma content_update [simp]:
  "content (ev\<lparr>ev_journal_offset := i, ev_process_sequence := j\<rparr>) = content ev"
  by (simp add: content_def)

lemma append_events_tx_Cons:
  "fold_op (\<lambda>ev results. bind_op (append_one ev) (\<lambda>ev'. ret (results @ [ev']))) (ev # evs) acc =
   bind_op (append_one ev) (\<lambda>ev'. fold_op (\<lambda>ev results. bind_op (append_one ev)
     (\<lambda>ev'. ret (results @ [ev']))) evs (acc @ [ev']))"
  by (simp add: bind_op_assoc)

lemma append_events_acc:
  assumes "journal_ok s" and "distinct (map ev_event_id evs)"
    and "ev_event_id ` set evs \<inter> ev_event_id ` set (k_journal s) = {}"
    and "\<forall>n \<ge> k_uuids s. uuid_hex n \<notin> ev_event_id ` set evs"
  shows "\<exists>evs' t. fold_op (\<lambda>ev results. bind_op (append_one ev) (\<lambda>ev'. ret (results @ [ev'])))
       evs acc s = (Inr (acc @ evs'), t) \<and> journal_ok t \<and> k_journal t = k_journal s @ evs' \<and>
       map content evs' = map content evs \<and> k_uuids t = k_uuids s"
  using assms
proof (induction evs arbitrary: acc s)
  case Nil
  then show ?case by auto
next
  case (Cons ev evs)
  let ?ev = "ev\<lparr>ev_journal_offset := int (length (k_journal s)),
    ev_process_sequence := int (length (filter (\<lambda>e. ev_pid e = ev_pid ev) (k_journal s)))\<rparr>"
  let ?s = "s\<lparr>k_journal := k_journal s @ [?ev], k_next_offset := Some (int (length (k_journal s)) + 1)\<rparr>"
  have one: "append_one ev s = (Inr ?ev, ?s)"
    using Cons.prems by (intro append_one_ok) auto
  have "journal_ok ?s" using Cons.prems by (intro journal_ok_append) auto
  moreover have "ev_event_id ` set evs \<inter> ev_event_id ` set (k_journal ?s) = {}"
    using Cons.prems by auto
  ultimately have "\<exists>evs' t. fold_op (\<lambda>ev results. bind_op (append_one ev)
      (\<lambda>ev'. ret (results @ [ev']))) evs (acc @ [?ev]) ?s = (Inr ((acc @ [?ev]) @ evs'), t) \<and>
      journal_ok t \<and> k_journal t = k_journal ?s @ evs' \<and> map content evs' = map content evs \<and>
      k_uuids t = k_uuids ?s"
    using Cons.prems by (intro Cons.IH) auto
  then obtain evs' t where *: "fold_op (\<lambda>ev results. bind_op (append_one ev)
      (\<lambda>ev'. ret (results @ [ev']))) evs (acc @ [?ev]) ?s = (Inr ((acc @ [?ev]) @ evs'), t)"
    "journal_ok t" "k_journal t = k_journal ?s @ evs'" "map content evs' = map content evs"
    "k_uuids t = k_uuids ?s"
    by blast
  show ?case
    unfolding append_events_tx_Cons using *
    by (intro exI [of _ "?ev # evs'"] exI [of _ t]) (simp add: bind_op_def one)
qed

lemma mk_events_ok:
  "\<exists>evs. mk_events es s = (Inr evs, s\<lparr>k_uuids := k_uuids s + length es\<rparr>) \<and>
     map content evs = es \<and> map ev_event_id evs = map uuid_hex [k_uuids s..<k_uuids s + length es]"
proof (induction es arbitrary: s rule: mk_events.induct)
  case 1
  then show ?case by simp
next
  case (2 pid ty pl es)
  let ?ev = "\<lparr>ev_event_id = uuid_hex (k_uuids s), ev_journal_offset = 0, ev_pid = pid,
    ev_process_sequence = 0, ev_event_type = ty, ev_payload = pl, ev_created_at = k_now s\<rparr>"
  let ?s = "s\<lparr>k_uuids := Suc (k_uuids s)\<rparr>"
  have ev: "mk_event pid ty pl s = (Inr ?ev, ?s)"
    by (simp add: mk_event_def mk_event_at_def bind_op_def uuid4_def)
  have c: "content ?ev = (pid, ty, pl)" by (simp add: content_def)
  obtain evs where "mk_events es ?s = (Inr evs, ?s\<lparr>k_uuids := k_uuids ?s + length es\<rparr>)"
    "map content evs = es" "map ev_event_id evs = map uuid_hex [k_uuids ?s..<k_uuids ?s + length es]"
    using 2 by blast
  then show ?case
    by (intro exI [of _ "?ev # evs"])
      (simp add: bind_op_def ev c upt_conv_Cons del: upt_Suc)
qed

lemma emit_tx_ok:
  assumes ok: "journal_ok s"
  shows "\<exists>evs t. emit_tx es s = (Inr evs, t) \<and> journal_ok t \<and> k_journal t = k_journal s @ evs \<and>
    map content evs = es \<and> journal_only s t \<and> k_uuids t = k_uuids s + length es"
proof -
  let ?s = "s\<lparr>k_uuids := k_uuids s + length es\<rparr>"
  obtain evs where evs: "mk_events es s = (Inr evs, ?s)" "map content evs = es"
      "map ev_event_id evs = map uuid_hex [k_uuids s..<k_uuids s + length es]"
    using mk_events_ok by blast
  have "journal_ok ?s" using ok by (simp add: journal_ok_def)
  moreover have ids: "ev_event_id ` set evs = uuid_hex ` {k_uuids s..<k_uuids s + length es}"
    using evs(3) by (metis atLeastLessThan_upt image_set)
  moreover have "distinct (map ev_event_id evs)"
    unfolding evs(3) by (simp add: distinct_map inj_on_def)
  moreover have "uuid_hex ` {k_uuids s..<k_uuids s + length es} \<inter> ev_event_id ` set (k_journal s) = {}"
    using ok by (auto simp: journal_ok_def)
  ultimately obtain evs' t where "append_events_tx evs ?s = (Inr evs', t)" "journal_ok t"
      "k_journal t = k_journal s @ evs'" "map content evs' = map content evs" "k_uuids t = k_uuids ?s"
    using append_events_acc [of ?s evs "[]"] unfolding append_events_tx_def by force
  moreover from this have "emit_tx es s = (Inr evs', t)"
    by (simp add: emit_tx_def bind_op_def evs(1))
  moreover from this have "journal_only s t" by (rule stepsD [OF jo_emit_tx(1)])
  ultimately show ?thesis using evs(2) by (intro exI [of _ evs'] exI [of _ t]) simp
qed

end
