(* ===== verification/Processes.thy ===== *)
theory Processes
  imports Journal
begin

text \<open>
  The process table and its transitions, \<open>agent_os/services/process_service.py\<close>: spawn,
  validated and safe transitions, queries, program states, and the handler that rebuilds the
  table from the journal.
\<close>

section \<open>The process table\<close>

text \<open>
  The columns \<open>ON CONFLICT(pid) DO UPDATE\<close> takes from the new row; all others keep the stored
  value. A stored wait condition is NULL when it is empty.
\<close>

definition merge_pcb :: "pcb \<Rightarrow> pcb \<Rightarrow> pcb" where
  "merge_pcb old new = old\<lparr>p_state := p_state new, p_priority := p_priority new,
     p_effective_priority := p_effective_priority new,
     p_pending_request_id := p_pending_request_id new,
     p_wait_condition := p_wait_condition new, p_checkpoint_ref := p_checkpoint_ref new,
     p_exit_code := p_exit_code new, p_result_ref := p_result_ref new,
     p_event_cursor := p_event_cursor new\<rparr>"

definition pcb_row :: "pcb \<Rightarrow> pcb" where
  "pcb_row p = p\<lparr>p_wait_condition := null_if_empty (p_wait_condition p)\<rparr>"

definition upsert_process :: "pcb \<Rightarrow> kstate \<Rightarrow> kstate" where
  "upsert_process p s = s\<lparr>k_processes := tbl_upsert p_pid merge_pcb (pcb_row p) (k_processes s)\<rparr>"

definition get_process :: "kstate \<Rightarrow> string \<Rightarrow> pcb option" where
  "get_process s pid = tbl_get p_pid (k_processes s) pid"

definition list_ready :: "kstate \<Rightarrow> pcb list" where
  "list_ready s = sort_key (\<lambda>p. (p_priority p, p_created_at p))
     (filter (\<lambda>p. p_state p = READY) (k_processes s))"

definition list_all_processes :: "kstate \<Rightarrow> pcb list" where
  "list_all_processes s = sort_key p_created_at (k_processes s)"

definition list_blocked :: "kstate \<Rightarrow> pcb list" where
  "list_blocked s = filter (\<lambda>p. p_state p = BLOCKED) (k_processes s)"

definition get_program_state :: "kstate \<Rightarrow> string \<Rightarrow> pydict" where
  "get_program_state s pid = or_empty (k_program_states s pid)"

definition save_program_state :: "string \<Rightarrow> pydict \<Rightarrow> kstate \<Rightarrow> kstate" where
  "save_program_state pid st s = s\<lparr>k_program_states := (k_program_states s)(pid \<mapsto> st)\<rparr>"

section \<open>Transitions\<close>

text \<open>\<open>f"PROCESS_{target.value.upper()}"\<close>.\<close>

fun process_event_type :: "process_state \<Rightarrow> string" where
  "process_event_type CREATED = ''PROCESS_CREATED''"
| "process_event_type READY = ''PROCESS_READY''"
| "process_event_type RUNNING = ''PROCESS_RUNNING''"
| "process_event_type BLOCKED = ''PROCESS_BLOCKED''"
| "process_event_type SUSPENDED = ''PROCESS_SUSPENDED''"
| "process_event_type EXITED = ''PROCESS_EXITED''"
| "process_event_type FAILED = ''PROCESS_FAILED''"

definition wait_val :: "pydict option \<Rightarrow> val" where
  "wait_val w = (case w of None \<Rightarrow> VNone | Some d \<Rightarrow> VDict d)"

text \<open>
  The payload is built after the control block was updated in place, so \<open>old_state\<close> reads the
  state of the updated block \<open>p'\<close>.
\<close>

definition transition_payload :: "pcb \<Rightarrow> process_state \<Rightarrow> string \<Rightarrow> pydict option \<Rightarrow> payload" where
  "transition_payload p' target reason wait = PDict
     [(''old_state'', VStr (if target = READY then process_state_value (p_state p')
                            else process_state_value target)),
      (''new_state'', VStr (process_state_value target)),
      (''reason'', VStr reason),
      (''wait_condition'', wait_val wait)]"

definition transition :: "string \<Rightarrow> process_state \<Rightarrow> pydict option \<Rightarrow> event kop" where
  "transition pid target wait =
     bind_op (gets (\<lambda>s. get_process s pid)) (\<lambda>r. case r of
       None \<Rightarrow> raise (ValueError (''Process not found: '' @ pid))
     | Some p \<Rightarrow>
         (case apply_process_transition p target wait of
            Inl e \<Rightarrow> raise e
          | Inr (p', reason) \<Rightarrow>
              bind_op (emit pid (process_event_type target)
                         (transition_payload p' target reason wait)) (\<lambda>ev.
              then_op (modify (upsert_process p')) (ret ev))))"

definition safe_transition :: "string \<Rightarrow> process_state \<Rightarrow> pydict option \<Rightarrow> event option kop" where
  "safe_transition pid target wait =
     try_op (bind_op (transition pid target wait) (\<lambda>ev. ret (Some ev)))
       (\<lambda>_. bind_op (gets (\<lambda>s. get_process s pid)) (\<lambda>r.
          let current = (case r of Some p \<Rightarrow> process_state_value (p_state p) | None \<Rightarrow> ''unknown'')
          in then_op (emit pid ''PROCESS_TRANSITION_REJECTED'' (PDict
                 [(''from'', VStr current), (''to'', VStr (process_state_value target)),
                  (''reason'', VStr ''illegal_transition'')]))
               (ret None)))"

section \<open>Spawn\<close>

definition new_pcb ::
    "string \<Rightarrow> string \<Rightarrow> string \<Rightarrow> string option \<Rightarrow> string \<Rightarrow> string \<Rightarrow> int \<Rightarrow> time \<Rightarrow> pcb" where
  "new_pcb pid program cap_set_id parent ns grp priority ts =
     \<lparr>p_pid = pid, p_parent_pid = parent, p_program_id = program, p_state = CREATED,
      p_priority = priority, p_effective_priority = priority, p_capability_set_id = cap_set_id,
      p_namespace_id = ns, p_resource_group_id = grp, p_program_state_ref = pid,
      p_pending_request_id = None, p_wait_condition = None, p_checkpoint_ref = None,
      p_exit_code = None, p_result_ref = None, p_event_cursor = 0, p_created_at = ts\<rparr>"

definition spawn ::
    "string \<Rightarrow> string \<Rightarrow> string option \<Rightarrow> string option \<Rightarrow> string \<Rightarrow> int \<Rightarrow> pydict option \<Rightarrow> pcb kop" where
  "spawn program_id namespace_id capability_set_id parent_pid resource_group_id priority program_state =
     bind_op uuid4 (\<lambda>pid.
     bind_op (case capability_set_id of
                None \<Rightarrow> uuid4 | Some c \<Rightarrow> if c = [] then uuid4 else ret c) (\<lambda>cap_set_id.
     bind_op (gets k_now) (\<lambda>ts.
     let p = new_pcb pid program_id cap_set_id parent_pid namespace_id resource_group_id priority ts
     in then_op (modify (save_program_state pid (or_empty program_state)))
        (then_op (emit pid ''PROCESS_SPAWNED'' (PPcb p))
        (then_op (modify (upsert_process p))
        (then_op (transition pid READY None)
        (gets (\<lambda>s. case get_process s pid of Some q \<Rightarrow> q | None \<Rightarrow> p))))))))"

section \<open>Replay\<close>

text \<open>\<open>ev.event_type.startswith("PROCESS_")\<close>.\<close>

definition is_process_event :: "string \<Rightarrow> bool" where
  "is_process_event ty \<longleftrightarrow> take (length ''PROCESS_'') ty = ''PROCESS_''"

definition replay_process_state :: "event \<Rightarrow> unit kop" where
  "replay_process_state ev =
     (if \<not> truthy (payload_get ev ''new_state'') then ret ()
      else bind_op (gets (\<lambda>s. get_process s (ev_pid ev))) (\<lambda>r. case r of
        None \<Rightarrow> ret ()
      | Some p \<Rightarrow>
          (case payload_get ev ''new_state'' of
             VStr v \<Rightarrow>
               (case process_state_of v of
                  None \<Rightarrow> raise (ValueError (v @ '' is not a valid ProcessState''))
                | Some st \<Rightarrow>
                    let p1 = p\<lparr>p_state := st\<rparr>;
                        p2 = (case payload_get ev ''wait_condition'' of
                                VDict (x # d) \<Rightarrow> p1\<lparr>p_wait_condition := Some (x # d)\<rparr>
                              | _ \<Rightarrow> if v = ''ready'' \<or> v = ''running''
                                    then p1\<lparr>p_wait_condition := None\<rparr> else p1)
                    in modify (upsert_process p2))
           | _ \<Rightarrow> raise (ValueError ''not a valid ProcessState''))))"

definition replay_process_exit :: "event \<Rightarrow> unit kop" where
  "replay_process_exit ev =
     (if ev_event_type ev \<noteq> ''PROCESS_EXITED'' then ret ()
      else bind_op (gets (\<lambda>s. get_process s (ev_pid ev))) (\<lambda>r. case r of
        None \<Rightarrow> ret ()
      | Some p \<Rightarrow>
          let p1 = (case payload_get ev ''exit_code'' of
                      VStr c \<Rightarrow> if c = [] then p else p\<lparr>p_exit_code := Some c\<rparr> | _ \<Rightarrow> p);
              p2 = (case payload_get ev ''result_ref'' of
                      VStr c \<Rightarrow> if c = [] then p1 else p1\<lparr>p_result_ref := Some c\<rparr> | _ \<Rightarrow> p1)
          in modify (upsert_process p2)))"

definition process_handle_event :: "event \<Rightarrow> unit kop" where
  "process_handle_event ev =
     (if ev_event_type ev = ''PROCESS_SPAWNED'' then
        (case ev_payload ev of
           PPcb p \<Rightarrow> then_op (modify (upsert_process p))
             (modify (\<lambda>s. save_program_state (p_pid p) (get_program_state s (p_pid p)) s))
         | _ \<Rightarrow> raise (OtherError ''ValidationError'' ''ProcessControlBlock''))
      else if is_process_event (ev_event_type ev) \<and> ev_event_type ev \<noteq> ''PROCESS_TRANSITION_REJECTED''
      then then_op (replay_process_state ev)
          (then_op (replay_process_exit ev)
          (bind_op (gets (\<lambda>s. get_process s (ev_pid ev))) (\<lambda>r. case r of
             None \<Rightarrow> ret ()
           | Some p \<Rightarrow> modify (upsert_process (p\<lparr>p_event_cursor := ev_journal_offset ev + 1\<rparr>)))))
      else ret ())"

section \<open>Lemmas on the table\<close>

lemma merge_pcb_sel [simp]:
  "p_pid (merge_pcb old new) = p_pid old" "p_state (merge_pcb old new) = p_state new"
  "p_wait_condition (merge_pcb old new) = p_wait_condition new"
  "p_priority (merge_pcb old new) = p_priority new"
  "p_created_at (merge_pcb old new) = p_created_at old"
  "p_capability_set_id (merge_pcb old new) = p_capability_set_id old"
  "p_namespace_id (merge_pcb old new) = p_namespace_id old"
  "p_program_id (merge_pcb old new) = p_program_id old"
  "p_parent_pid (merge_pcb old new) = p_parent_pid old"
  by (simp_all add: merge_pcb_def)

lemma pcb_row_sel [simp]:
  "p_pid (pcb_row p) = p_pid p" "p_state (pcb_row p) = p_state p"
  "p_wait_condition (pcb_row p) = null_if_empty (p_wait_condition p)"
  "p_capability_set_id (pcb_row p) = p_capability_set_id p"
  "p_created_at (pcb_row p) = p_created_at p" "p_priority (pcb_row p) = p_priority p"
  "p_namespace_id (pcb_row p) = p_namespace_id p"
  "p_event_cursor (pcb_row p) = p_event_cursor p"
  by (simp_all add: pcb_row_def)

interpretation pt: keyed_store p_pid merge_pcb
  by unfold_locales (simp add: merge_pcb_def)

lemma get_process_pid: "get_process s pid = Some p \<Longrightarrow> p_pid p = pid"
  unfolding get_process_def by (rule tbl_get_key)

lemma get_upsert_process:
  "get_process (upsert_process p s) pid =
     (if pid = p_pid p then Some (case get_process s pid of
        None \<Rightarrow> pcb_row p | Some old \<Rightarrow> merge_pcb old (pcb_row p))
      else get_process s pid)"
  by (simp add: get_process_def upsert_process_def pt.get_put)

lemma upsert_process_sel [simp]:
  "k_journal (upsert_process p s) = k_journal s" "k_next_offset (upsert_process p s) = k_next_offset s"
  "k_program_states (upsert_process p s) = k_program_states s"
  "k_actions (upsert_process p s) = k_actions s" "k_leases (upsert_process p s) = k_leases s"
  "k_fences (upsert_process p s) = k_fences s" "k_waiters (upsert_process p s) = k_waiters s"
  "k_signals (upsert_process p s) = k_signals s"
  "k_capability_sets (upsert_process p s) = k_capability_sets s"
  "k_checkpoints (upsert_process p s) = k_checkpoints s" "k_now (upsert_process p s) = k_now s"
  "k_logical (upsert_process p s) = k_logical s" "k_uuids (upsert_process p s) = k_uuids s"
  by (simp_all add: upsert_process_def)

lemma save_program_state_sel [simp]:
  "k_journal (save_program_state pid st s) = k_journal s"
  "k_next_offset (save_program_state pid st s) = k_next_offset s"
  "k_processes (save_program_state pid st s) = k_processes s"
  "k_actions (save_program_state pid st s) = k_actions s"
  "k_leases (save_program_state pid st s) = k_leases s"
  "k_fences (save_program_state pid st s) = k_fences s"
  "k_waiters (save_program_state pid st s) = k_waiters s"
  "k_signals (save_program_state pid st s) = k_signals s"
  "k_capability_sets (save_program_state pid st s) = k_capability_sets s"
  "k_checkpoints (save_program_state pid st s) = k_checkpoints s"
  "k_now (save_program_state pid st s) = k_now s" "k_uuids (save_program_state pid st s) = k_uuids s"
  by (simp_all add: save_program_state_def)

lemma journal_ok_upsert_process [simp]: "journal_ok (upsert_process p s) = journal_ok s"
  by (simp add: journal_ok_def)

text \<open>What a transition does: rejected requests change nothing, accepted ones move the row.\<close>

lemma transition_unknown:
  "get_process s pid = None \<Longrightarrow>
     transition pid target wait s = (Inl (ValueError (''Process not found: '' @ pid)), s)"
  by (simp add: transition_def)

lemma transition_rejected:
  "get_process s pid = Some p \<Longrightarrow> apply_process_transition p target wait = Inl e \<Longrightarrow>
     transition pid target wait s = (Inl e, s)"
  by (simp add: transition_def)

lemma transition_accepted:
  assumes "journal_ok s" and "get_process s pid = Some p"
    and "apply_process_transition p target wait = Inr (p', reason)"
  shows "transition pid target wait s =
    (let ev = next_event s (k_now s) pid (process_event_type target)
                (transition_payload p' target reason wait)
     in (Inr ev, upsert_process p' (journaled s ev)))"
  using assms emit_ok [OF assms(1)]
  by (simp add: transition_def bind_op_def then_op_def Let_def)

end
