(* ===== verification/Signals.thy ===== *)
theory Signals
  imports Processes
begin

text \<open>
  Durable signals, \<open>agent_os/services/signal_service.py\<close>: sending, matching against a wait
  condition, delivery to blocked processes, and the replay handler.
\<close>

section \<open>Operations\<close>

definition upsert_signal :: "signal \<Rightarrow> kstate \<Rightarrow> kstate" where
  "upsert_signal sg s = s\<lparr>k_signals := tbl_replace sg_signal_id sg (k_signals s)\<rparr>"

definition set_consumed :: "string \<Rightarrow> kstate \<Rightarrow> kstate" where
  "set_consumed i s = s\<lparr>k_signals :=
     tbl_update (\<lambda>g. sg_signal_id g = i) (\<lambda>g. g\<lparr>sg_consumed := True\<rparr>) (k_signals s)\<rparr>"

definition send_signal :: "string \<Rightarrow> string \<Rightarrow> string option \<Rightarrow> pydict option \<Rightarrow> signal kop" where
  "send_signal target_pid signal_type source_pid payload =
     bind_op uuid4 (\<lambda>i. bind_op (gets k_now) (\<lambda>ts.
     let sg = \<lparr>sg_signal_id = i, sg_target_pid = target_pid, sg_signal_type = signal_type,
               sg_source_pid = source_pid, sg_payload = or_empty payload, sg_created_at = ts,
               sg_consumed = False\<rparr>;
         from = (case source_pid of None \<Rightarrow> target_pid
                 | Some p \<Rightarrow> if p = [] then target_pid else p)
     in then_op (emit from ''SIGNAL_SENT'' (PSignal sg))
          (then_op (modify (upsert_signal sg)) (ret sg))))"

definition matches_wait_condition :: "pydict option \<Rightarrow> signal \<Rightarrow> bool" where
  "matches_wait_condition wait sg =
     (case wait of
        None \<Rightarrow> True
      | Some w \<Rightarrow>
          let expected_type = dict_get w ''signal_type'';
              expected_action_id = dict_get w ''action_id'';
              expected_types = dict_get w ''signal_types''
          in if truthy expected_type \<and> VStr (sg_signal_type sg) \<noteq> expected_type then False
             else if truthy expected_action_id
                     \<and> dict_get (sg_payload sg) ''action_id'' \<noteq> expected_action_id then False
             else \<not> (truthy expected_types
                     \<and> (case expected_types of
                          VList ts \<Rightarrow> VStr (sg_signal_type sg) \<notin> set ts
                        | _ \<Rightarrow> False)))"

definition mark_consumed :: "string \<Rightarrow> unit kop" where
  "mark_consumed i =
     then_op (modify (set_consumed i))
       (then_op (emit ''kernel'' ''SIGNAL_CONSUMED'' (PDict [(''signal_id'', VStr i)])) (ret ()))"

text \<open>The loop body shared by \<open>deliver_pending\<close> and \<open>deliver_to_pid\<close>.\<close>

definition deliver_one :: "signal \<Rightarrow> nat \<Rightarrow> nat kop" where
  "deliver_one sg delivered =
     bind_op (gets (\<lambda>s. get_process s (sg_target_pid sg))) (\<lambda>r. case r of
       None \<Rightarrow> ret delivered
     | Some p \<Rightarrow>
         if p_state p \<noteq> BLOCKED then ret delivered
         else if \<not> matches_wait_condition (p_wait_condition p) sg then ret delivered
         else then_op (mark_consumed (sg_signal_id sg))
              (then_op (transition (sg_target_pid sg) READY None)
              (ret (delivered + 1))))"

definition unconsumed_signals :: "kstate \<Rightarrow> signal list" where
  "unconsumed_signals s = sort_key sg_created_at (filter (\<lambda>g. \<not> sg_consumed g) (k_signals s))"

definition deliver_pending :: "nat kop" where
  "deliver_pending = bind_op (gets unconsumed_signals) (\<lambda>rows. fold_op deliver_one rows 0)"

definition list_pending :: "string \<Rightarrow> kstate \<Rightarrow> signal list" where
  "list_pending pid s =
     sort_key sg_created_at (filter (\<lambda>g. \<not> sg_consumed g \<and> sg_target_pid g = pid) (k_signals s))"

definition deliver_to_pid :: "string \<Rightarrow> nat kop" where
  "deliver_to_pid pid = bind_op (gets (list_pending pid)) (\<lambda>rows. fold_op deliver_one rows 0)"

definition list_all_signals :: "kstate \<Rightarrow> signal list" where
  "list_all_signals s = sort_key sg_created_at (k_signals s)"

definition signal_handle_event :: "event \<Rightarrow> unit kop" where
  "signal_handle_event ev =
     (if ev_event_type ev = ''SIGNAL_SENT'' then
        (case ev_payload ev of
           PSignal sg \<Rightarrow> modify (upsert_signal sg)
         | _ \<Rightarrow> raise (OtherError ''ValidationError'' ''Signal''))
      else if ev_event_type ev = ''SIGNAL_CONSUMED'' then
        (case payload_get ev ''signal_id'' of
           VStr i \<Rightarrow> if i = [] then ret () else modify (set_consumed i)
         | _ \<Rightarrow> ret ())
      else ret ())"

end
