(* ===== verification/Fnmatch.thy ===== *)
theory Fnmatch
  imports Prelude
begin

text \<open>
  Shell-style patterns as \<open>fnmatch.fnmatch\<close> of the standard library matches them on POSIX:
  \<open>*\<close> any string, \<open>?\<close> any character, \<open>[seq]\<close> and \<open>[!seq]\<close> with ranges, every other
  character itself, an unclosed \<open>[\<close> literal. Capability checks are made of it.
\<close>

datatype class_item = Lit char | Range char char

text \<open>
  The inside of a bracket: \<open>a-z\<close> is a range whenever a character follows the hyphen; ranges
  whose ends are out of order are dropped.
\<close>

fun class_items :: "string \<Rightarrow> class_item list" where
  "class_items (a # b # c # cs) =
     (if b = CHR ''-'' then Range a c # class_items cs else Lit a # class_items (b # c # cs))"
| "class_items [a, b] = [Lit a, Lit b]"
| "class_items [a] = [Lit a]"
| "class_items [] = []"

fun item_nonempty :: "class_item \<Rightarrow> bool" where
  "item_nonempty (Lit c) = True"
| "item_nonempty (Range a b) = (a \<le> b)"

fun item_has :: "char \<Rightarrow> class_item \<Rightarrow> bool" where
  "item_has c (Lit a) = (c = a)"
| "item_has c (Range a b) = (a \<le> c \<and> c \<le> b)"

text \<open>
  Dropping empty ranges happens before the leading \<open>!\<close> is looked at, so a \<open>!\<close> that becomes
  first through it negates the class (and a hyphen after it is then a plain one).
\<close>

definition class_matches :: "string \<Rightarrow> char \<Rightarrow> bool" where
  "class_matches stuff c =
     (case stuff of
        CHR ''!'' # rest \<Rightarrow> \<not> (\<exists>i \<in> set (class_items rest). item_has c i)
      | _ \<Rightarrow>
          (case filter item_nonempty (class_items stuff) of
             Lit a # items \<Rightarrow>
               if a = CHR ''!'' then \<not> (\<exists>i \<in> set items. item_has c i)
               else \<exists>i \<in> set (Lit a # items). item_has c i
           | Range a b # items \<Rightarrow>
               if a = CHR ''!'' then \<not> (\<exists>i \<in> set (Lit (CHR ''-'') # Lit b # items). item_has c i)
               else \<exists>i \<in> set (Range a b # items). item_has c i
           | items \<Rightarrow> \<exists>i \<in> set items. item_has c i))"

text \<open>
  The text after \<open>[\<close>: the class and the rest of the pattern, or nothing if no \<open>]\<close> closes it.
  A \<open>]\<close> in first position (after an optional \<open>!\<close>) belongs to the class.
\<close>

fun until_close :: "string \<Rightarrow> (string \<times> string) option" where
  "until_close [] = None"
| "until_close (c # cs) =
     (if c = CHR '']'' then Some ([], cs)
      else map_option (\<lambda>(a, b). (c # a, b)) (until_close cs))"

definition split_class :: "string \<Rightarrow> (string \<times> string) option" where
  "split_class cs =
     (case cs of
        [] \<Rightarrow> None
      | c # cs1 \<Rightarrow>
          if c = CHR ''!'' then
            (case cs1 of
               [] \<Rightarrow> None
             | d # cs2 \<Rightarrow>
                 if d = CHR '']'' then map_option (\<lambda>(a, b). (c # d # a, b)) (until_close cs2)
                 else map_option (\<lambda>(a, b). (c # a, b)) (until_close cs1))
          else if c = CHR '']'' then map_option (\<lambda>(a, b). (c # a, b)) (until_close cs1)
          else until_close cs)"

datatype pat_item = PStar | PAny | PClass string | PChar char

lemma until_close_length: "until_close cs = Some (a, b) \<Longrightarrow> length b < length cs"
  by (induction cs arbitrary: a) (auto split: if_splits)

lemma split_class_length: "split_class cs = Some (a, b) \<Longrightarrow> length b < length cs"
  by (auto simp: split_class_def split: list.splits if_splits dest!: until_close_length)

function parse_pattern :: "string \<Rightarrow> pat_item list" where
  "parse_pattern [] = []"
| "parse_pattern (c # cs) =
     (if c = CHR ''*'' then PStar # parse_pattern cs
      else if c = CHR ''?'' then PAny # parse_pattern cs
      else if c = CHR ''['' then
        (case split_class cs of
           None \<Rightarrow> PChar c # parse_pattern cs
         | Some (stuff, rest) \<Rightarrow> PClass stuff # parse_pattern rest)
      else PChar c # parse_pattern cs)"
  by pat_completeness auto
termination
  by (relation "measure length") (auto dest: split_class_length intro: less_SucI)

fun match_items :: "string \<Rightarrow> pat_item list \<Rightarrow> bool" where
  "match_items [] [] = True"
| "match_items (c # cs) [] = False"
| "match_items [] (PStar # ps) = match_items [] ps"
| "match_items [] (_ # ps) = False"
| "match_items (c # cs) (PStar # ps) = (match_items (c # cs) ps \<or> match_items cs (PStar # ps))"
| "match_items (c # cs) (PAny # ps) = match_items cs ps"
| "match_items (c # cs) (PClass stuff # ps) = (class_matches stuff c \<and> match_items cs ps)"
| "match_items (c # cs) (PChar d # ps) = (c = d \<and> match_items cs ps)"

definition fnmatch :: "string \<Rightarrow> string \<Rightarrow> bool" where
  "fnmatch name pat = match_items name (parse_pattern pat)"

section \<open>What patterns match\<close>

lemma match_star: "match_items s (PStar # ps) \<longleftrightarrow> (\<exists>u v. s = u @ v \<and> match_items v ps)"
proof (induction s)
  case Nil
  then show ?case by simp
next
  case (Cons c cs)
  show ?case
  proof
    assume "match_items (c # cs) (PStar # ps)"
    then consider "match_items (c # cs) ps" | "match_items cs (PStar # ps)" by auto
    then show "\<exists>u v. c # cs = u @ v \<and> match_items v ps"
    proof cases
      case 1
      then show ?thesis by (metis append_Nil)
    next
      case 2
      then show ?thesis using Cons.IH by (metis append_Cons)
    qed
  next
    assume "\<exists>u v. c # cs = u @ v \<and> match_items v ps"
    then obtain u v where uv: "c # cs = u @ v" "match_items v ps" by blast
    then show "match_items (c # cs) (PStar # ps)"
      using Cons.IH by (cases u) auto
  qed
qed

lemma match_nil [simp]: "match_items s [] \<longleftrightarrow> s = []"
  by (cases s) simp_all

lemma match_single_star [simp]: "match_items s [PStar]"
  by (induction s) simp_all

lemma match_chars: "match_items s (map PChar cs @ ps) \<longleftrightarrow> (\<exists>v. s = cs @ v \<and> match_items v ps)"
proof (induction cs arbitrary: s)
  case Nil
  then show ?case by simp
next
  case (Cons c cs)
  then show ?case by (cases s) auto
qed

text \<open>A pattern without metacharacters matches itself and nothing else.\<close>

definition plain :: "string \<Rightarrow> bool" where
  "plain p \<longleftrightarrow> CHR ''*'' \<notin> set p \<and> CHR ''?'' \<notin> set p \<and> CHR ''['' \<notin> set p"

lemma parse_plain: "plain p \<Longrightarrow> parse_pattern (p @ q) = map PChar p @ parse_pattern q"
  by (induction p) (auto simp: plain_def)

lemma fnmatch_plain: "plain p \<Longrightarrow> fnmatch s p \<longleftrightarrow> s = p"
  using parse_plain [of p "[]"] match_chars [of s p "[]"]
  by (auto simp: fnmatch_def)

lemma fnmatch_prefix: "plain p \<Longrightarrow> fnmatch s (p @ ''*'') \<longleftrightarrow> (\<exists>v. s = p @ v)"
  by (simp add: fnmatch_def parse_plain match_chars)

end
