(* ===== verification/Capabilities.thy ===== *)
theory Capabilities
  imports Processes Fnmatch
begin

text \<open>
  Capability sets and their checks, \<open>agent_os/services/capability_service.py\<close> and
  \<open>CapabilitySet.check\<close> of \<open>kernel/models.py\<close>. The set of operations of a capability is a
  list read as a set.
\<close>

section \<open>Operations\<close>

text \<open>
  The templates; \<open>ids\<close> are the capability ids drawn when the module is loaded.
\<close>

definition template :: "string \<Rightarrow> string \<Rightarrow> string list \<Rightarrow> capability" where
  "template i pat ops =
     \<lparr>cp_capability_id = i, cp_resource_pattern = pat, cp_operations = ops, cp_constraints = []\<rparr>"

definition DEFAULT_CAPABILITIES :: "(nat \<Rightarrow> string) \<Rightarrow> (string \<times> capability list) list" where
  "DEFAULT_CAPABILITIES ids =
     [(''full'',
       [template (ids 0) ''device:model/mock'' [''invoke''],
        template (ids 1) ''device:tool/mock'' [''invoke''],
        template (ids 2) ''resource:workspace/*'' [''acquire'', ''release''],
        template (ids 3) ''process:signal/*'' [''send'']]),
      (''restricted'',
       [template (ids 4) ''device:model/mock'' [''invoke''] ])]"

definition cap_allows :: "capability \<Rightarrow> string \<Rightarrow> string \<Rightarrow> bool" where
  "cap_allows c resource oper \<longleftrightarrow>
     fnmatch resource (cp_resource_pattern c) \<and> oper \<in> set (cp_operations c)"

definition capability_set_check :: "capability_set \<Rightarrow> string \<Rightarrow> string \<Rightarrow> bool" where
  "capability_set_check cs resource oper \<longleftrightarrow>
     (\<exists>c \<in> set (cs_capabilities cs). cap_allows c resource oper)"

definition get_capability_set :: "kstate \<Rightarrow> string \<Rightarrow> capability_set option" where
  "get_capability_set s pid = tbl_get cs_pid (k_capability_sets s) pid"

text \<open>\<open>ON CONFLICT(pid) DO UPDATE SET capabilities_json\<close>: the stored set id stays.\<close>

definition merge_caps :: "capability_set \<Rightarrow> capability_set \<Rightarrow> capability_set" where
  "merge_caps old new = old\<lparr>cs_capabilities := cs_capabilities new\<rparr>"

definition upsert_capability_set :: "capability_set \<Rightarrow> unit kop" where
  "upsert_capability_set cs s =
     (if cs_pid cs \<notin> cs_pid ` set (k_capability_sets s)
         \<and> cs_set_id cs \<in> cs_set_id ` set (k_capability_sets s)
      then (Inl (IntegrityError ''UNIQUE constraint failed: capability_sets.set_id''), s)
      else (Inr (), s\<lparr>k_capability_sets :=
              tbl_upsert cs_pid merge_caps cs (k_capability_sets s)\<rparr>))"

definition same_grant :: "capability \<Rightarrow> capability \<Rightarrow> bool" where
  "same_grant c d \<longleftrightarrow> cp_resource_pattern c = cp_resource_pattern d
     \<and> set (cp_operations c) = set (cp_operations d)"

definition grant :: "string \<Rightarrow> capability \<Rightarrow> unit kop" where
  "grant pid cap = transaction
     (bind_op (gets (\<lambda>s. get_capability_set s pid)) (\<lambda>row.
      let existing = (case row of None \<Rightarrow> [] | Some cs \<Rightarrow> cs_capabilities cs)
      in if \<exists>c \<in> set existing. same_grant c cap then ret ()
         else bind_op uuid4 (\<lambda>i. upsert_capability_set
                \<lparr>cs_set_id = i, cs_pid = pid, cs_capabilities = existing @ [cap]\<rparr>)))"

definition create_capability_set :: "string \<Rightarrow> capability list \<Rightarrow> capability_set kop" where
  "create_capability_set pid caps =
     bind_op uuid4 (\<lambda>i.
     let cs = \<lparr>cs_set_id = i, cs_pid = pid, cs_capabilities = caps\<rparr>
     in then_op (upsert_capability_set cs)
          (then_op (emit pid ''CAPABILITY_SET_CREATED'' (PCapSet cs)) (ret cs)))"

definition check_capability :: "kstate \<Rightarrow> string \<Rightarrow> string \<Rightarrow> string \<Rightarrow> bool" where
  "check_capability s pid resource oper =
     (case get_capability_set s pid of
        None \<Rightarrow> False
      | Some cs \<Rightarrow> capability_set_check cs resource oper)"

definition enforce :: "string \<Rightarrow> string \<Rightarrow> string \<Rightarrow> unit kop" where
  "enforce pid resource oper =
     bind_op (gets (\<lambda>s. check_capability s pid resource oper)) (\<lambda>ok.
     if ok then ret ()
     else then_op (emit pid ''CAPABILITY_DENIED'' (PDict
            [(''pid'', VStr pid), (''resource'', VStr resource), (''operation'', VStr oper)]))
          (raise (CapabilityDenied pid resource oper)))"

definition check_namespace_isolation ::
    "kstate \<Rightarrow> string \<Rightarrow> string \<Rightarrow> string \<Rightarrow> string \<Rightarrow> bool" where
  "check_namespace_isolation s caller_pid caller_namespace target_resource target_namespace \<longleftrightarrow>
     caller_namespace = target_namespace \<or>
     check_capability s caller_pid (''resource:'' @ target_namespace @ ''/*'') ''acquire''"

definition covers :: "capability \<Rightarrow> capability \<Rightarrow> bool" where
  "covers pc cc \<longleftrightarrow> fnmatch (cp_resource_pattern cc) (cp_resource_pattern pc)
     \<and> set (cp_operations cc) \<subseteq> set (cp_operations pc)"

definition verify_child_subset :: "kstate \<Rightarrow> string \<Rightarrow> string \<Rightarrow> bool" where
  "verify_child_subset s parent_pid child_pid =
     (case (get_capability_set s parent_pid, get_capability_set s child_pid) of
        (None, None) \<Rightarrow> True
      | (None, Some child) \<Rightarrow> cs_capabilities child = []
      | (Some parent, None) \<Rightarrow> True
      | (Some parent, Some child) \<Rightarrow>
          (\<forall>cc \<in> set (cs_capabilities child). \<exists>pc \<in> set (cs_capabilities parent). covers pc cc))"

definition capability_handle_event :: "event \<Rightarrow> unit kop" where
  "capability_handle_event ev =
     (if ev_event_type ev = ''CAPABILITY_SET_CREATED'' then
        (case ev_payload ev of
           PCapSet cs \<Rightarrow> upsert_capability_set cs
         | _ \<Rightarrow> raise (OtherError ''ValidationError'' ''CapabilitySet''))
      else if ev_event_type ev = ''CAPABILITY_GRANTED'' then
        (case ev_payload ev of
           PCapGrant pid cap \<Rightarrow>
             bind_op (gets (\<lambda>s. get_capability_set s pid)) (\<lambda>row.
             bind_op (case row of Some cs \<Rightarrow> ret cs | None \<Rightarrow> create_capability_set pid []) (\<lambda>cs.
             upsert_capability_set (cs\<lparr>cs_capabilities := cs_capabilities cs @ [cap]\<rparr>)))
         | _ \<Rightarrow> raise (OtherError ''KeyError'' ''pid''))
      else ret ())"

section \<open>The capability table\<close>

interpretation ct: keyed_store cs_pid merge_caps
  by unfold_locales (simp add: merge_caps_def)

lemma merge_caps_sel [simp]:
  "cs_pid (merge_caps old new) = cs_pid old" "cs_set_id (merge_caps old new) = cs_set_id old"
  "cs_capabilities (merge_caps old new) = cs_capabilities new"
  by (simp_all add: merge_caps_def)

lemma check_upsert:
  assumes "upsert_capability_set cs s = (Inr (), t)"
  shows "check_capability t pid res oper =
    (if pid = cs_pid cs then \<exists>c \<in> set (cs_capabilities cs). cap_allows c res oper
     else check_capability s pid res oper)"
proof -
  have "k_capability_sets t = tbl_upsert cs_pid merge_caps cs (k_capability_sets s)"
    using assms by (auto simp: upsert_capability_set_def split: if_splits)
  then show ?thesis
    by (cases "pid = cs_pid cs"; cases "tbl_get cs_pid (k_capability_sets s) pid")
      (simp_all add: check_capability_def get_capability_set_def ct.get_put capability_set_check_def)
qed

text \<open>Two grants with the same pattern and the same set of operations allow the same accesses.\<close>

lemma same_grant_allows: "same_grant c d \<Longrightarrow> cap_allows c r oper = cap_allows d r oper"
  by (simp add: same_grant_def cap_allows_def)

section \<open>Delegation\<close>

lemma match_single:
  "match_items s (PAny # ps) \<longleftrightarrow> (\<exists>c v. s = c # v \<and> True \<and> match_items v ps)"
  "match_items s (PClass x # ps) \<longleftrightarrow> (\<exists>c v. s = c # v \<and> class_matches x c \<and> match_items v ps)"
  "match_items s (PChar d # ps) \<longleftrightarrow> (\<exists>c v. s = c # v \<and> c = d \<and> match_items v ps)"
  by (cases s; auto)+

lemma Cons_split:
  "(\<exists>c v. s = c # v \<and> P c \<and> (\<exists>u w. v = u @ w \<and> Q u \<and> R w)) \<longleftrightarrow>
     (\<exists>u w. s = u @ w \<and> (\<exists>c v. u = c # v \<and> P c \<and> Q v) \<and> R w)"
proof
  assume "\<exists>c v. s = c # v \<and> P c \<and> (\<exists>u w. v = u @ w \<and> Q u \<and> R w)"
  then obtain c u w where "s = (c # u) @ w" "P c" "Q u" "R w" by auto
  then show "\<exists>u w. s = u @ w \<and> (\<exists>c v. u = c # v \<and> P c \<and> Q v) \<and> R w" by blast
next
  assume "\<exists>u w. s = u @ w \<and> (\<exists>c v. u = c # v \<and> P c \<and> Q v) \<and> R w"
  then obtain c v w where "s = c # (v @ w)" "P c" "Q v" "R w" by auto
  then show "\<exists>c v. s = c # v \<and> P c \<and> (\<exists>u w. v = u @ w \<and> Q u \<and> R w)" by blast
qed

lemma match_append: "match_items s (ps @ qs) \<longleftrightarrow> (\<exists>u v. s = u @ v \<and> match_items u ps \<and> match_items v qs)"
proof (induction ps arbitrary: s)
  case Nil
  then show ?case by simp
next
  case (Cons p ps)
  show ?case
  proof (cases p)
    case PStar
    show ?thesis
    proof
      assume "match_items s ((p # ps) @ qs)"
      then obtain w u v where "s = w @ u @ v" "match_items u ps" "match_items v qs"
        by (auto simp: PStar match_star Cons.IH)
      then have "s = (w @ u) @ v \<and> match_items (w @ u) (p # ps) \<and> match_items v qs"
        unfolding PStar match_star by simp blast
      then show "\<exists>u v. s = u @ v \<and> match_items u (p # ps) \<and> match_items v qs" by blast
    next
      assume "\<exists>u v. s = u @ v \<and> match_items u (p # ps) \<and> match_items v qs"
      then obtain w x v where "s = (w @ x) @ v" "match_items x ps" "match_items v qs"
        by (auto simp: PStar match_star)
      then have "s = w @ (x @ v) \<and> match_items (x @ v) (ps @ qs)"
        unfolding Cons.IH by simp blast
      then show "match_items s ((p # ps) @ qs)"
        unfolding PStar append_Cons match_star by blast
    qed
  next
    case PAny
    then show ?thesis
      by (simp only: match_single append_Cons Cons.IH Cons_split)
  next
    case (PClass x)
    then show ?thesis
      by (simp only: match_single append_Cons Cons.IH Cons_split)
  next
    case (PChar d)
    then show ?thesis
      by (simp only: match_single append_Cons Cons.IH Cons_split)
  qed
qed

abbreviation bracket_free :: "string \<Rightarrow> bool" where
  "bracket_free p \<equiv> CHR ''['' \<notin> set p"

lemma parse_append: "bracket_free p \<Longrightarrow> parse_pattern (p @ q) = parse_pattern p @ parse_pattern q"
  by (induction p) auto

lemma parse_simple:
  "bracket_free p \<Longrightarrow> CHR ''?'' \<notin> set p \<Longrightarrow> i \<in> set (parse_pattern p) \<Longrightarrow>
     i = PStar \<or> (\<exists>c. i = PChar c \<and> c \<noteq> CHR ''*'' \<and> c \<noteq> CHR ''?'' \<and> c \<noteq> CHR ''['')"
  by (induction p) (auto split: if_splits)

text \<open>A pattern that matches the text of another pattern matches whatever that one matches.\<close>

lemma match_trans:
  assumes "\<And>i. i \<in> set ps \<Longrightarrow>
      i = PStar \<or> (\<exists>c. i = PChar c \<and> c \<noteq> CHR ''*'' \<and> c \<noteq> CHR ''?'' \<and> c \<noteq> CHR ''['')"
    and "bracket_free p" and "match_items p ps" and "match_items s (parse_pattern p)"
  shows "match_items s ps"
  using assms
proof (induction ps arbitrary: p s)
  case Nil
  then show ?case by simp
next
  case (Cons i ps)
  show ?case
  proof (cases "i = PStar")
    case True
    obtain u v where p: "p = u @ v" and v: "match_items v ps"
      using Cons.prems(3) True by (auto simp: match_star)
    obtain s1 s2 where s: "s = s1 @ s2" and s2: "match_items s2 (parse_pattern v)"
      using Cons.prems(2,4) by (auto simp: p parse_append match_append)
    have "match_items s2 ps"
      using Cons.prems(1,2) v s2 by (intro Cons.IH [of v s2]) (auto simp: p)
    then show ?thesis using True s by (auto simp: match_star)
  next
    case False
    then obtain c where c: "i = PChar c" "c \<noteq> CHR ''*''" "c \<noteq> CHR ''?''" "c \<noteq> CHR ''[''"
      using Cons.prems(1) [of i] by auto
    obtain p' where p: "p = c # p'" and p': "match_items p' ps"
      using Cons.prems(3) c by (cases p) auto
    obtain s' where s: "s = c # s'" and s': "match_items s' (parse_pattern p')"
      using Cons.prems(4) c p by (cases s) auto
    have "match_items s' ps"
      using Cons.prems(1,2) p' s' by (intro Cons.IH [of p' s']) (auto simp: p)
    then show ?thesis using c s by simp
  qed
qed

lemma covers_sound:
  assumes "covers pc cc" and "bracket_free (cp_resource_pattern cc)"
    and "bracket_free (cp_resource_pattern pc)" and "CHR ''?'' \<notin> set (cp_resource_pattern pc)"
    and "cap_allows cc res oper"
  shows "cap_allows pc res oper"
proof -
  have "match_items res (parse_pattern (cp_resource_pattern pc))"
  proof (rule match_trans)
    show "bracket_free (cp_resource_pattern cc)" by (rule assms)
    show "match_items (cp_resource_pattern cc) (parse_pattern (cp_resource_pattern pc))"
      using assms(1) by (simp add: covers_def fnmatch_def)
    show "match_items res (parse_pattern (cp_resource_pattern cc))"
      using assms(5) by (simp add: cap_allows_def fnmatch_def)
  qed (rule parse_simple [OF assms(3,4)])
  then show ?thesis using assms(1,5) by (auto simp: covers_def cap_allows_def fnmatch_def)
qed

end
