(* ===== verification/Deadlock.thy ===== *)
theory Deadlock
  imports Prelude
begin

text \<open>
  Cycle search in the wait-for graph, \<open>LeaseService._find_cycles\<close> of
  \<open>agent_os/services/lease_service.py\<close>: the iterative depth-first search with its explicit
  stacks. It terminates on every graph, reports only genuine cycles, and every cycle of the
  graph shares a node with a reported one.
\<close>

section \<open>The search\<close>

text \<open>\<open>wait_for\<close>: a dictionary from a node to the set of nodes it waits for.\<close>

type_synonym 'n wait_for = "('n \<times> 'n list) list"

definition targets :: "'n wait_for \<Rightarrow> 'n \<Rightarrow> 'n list" where
  "targets wg n = (case map_of wg n of None \<Rightarrow> [] | Some ts \<Rightarrow> ts)"

definition adjacency :: "'n::linorder wait_for \<Rightarrow> 'n \<Rightarrow> 'n list" where
  "adjacency wg n = sort (targets wg n)"

text \<open>
  The variables of the search. \<open>d_work\<close> holds the Python list \<open>work\<close> with its last element
  first; an iterator is the list of neighbours it has yet to yield.
\<close>

record 'n dfs =
  d_cycles :: "'n list list"
  d_seen :: "'n list set"
  d_visited :: "'n set"
  d_stack :: "'n list"
  d_position :: "'n \<rightharpoonup> nat"
  d_work :: "('n \<times> 'n list) list"

definition normalize_cycle :: "'n::linorder list \<Rightarrow> 'n list" where
  "normalize_cycle c =
     (let rotation = length (takeWhile (\<lambda>x. x \<noteq> Min (set c)) c)
      in drop rotation c @ take rotation c)"

definition report_cycle :: "nat \<Rightarrow> 'n::linorder dfs \<Rightarrow> 'n dfs" where
  "report_cycle pos d =
     (let normalized = normalize_cycle (drop pos (d_stack d))
      in if normalized \<in> d_seen d then d
         else d\<lparr>d_seen := insert normalized (d_seen d), d_cycles := d_cycles d @ [normalized]\<rparr>)"

text \<open>One turn of the loop over neighbours, or the end of the node on top.\<close>

definition dfs_step :: "'n::linorder wait_for \<Rightarrow> 'n dfs \<Rightarrow> 'n dfs" where
  "dfs_step wg d =
     (case d_work d of
        [] \<Rightarrow> d
      | (node, []) # ws \<Rightarrow>
          let finished = last (d_stack d)
          in d\<lparr>d_work := ws, d_stack := butlast (d_stack d),
               d_position := (d_position d)(finished := None),
               d_visited := insert finished (d_visited d)\<rparr>
      | (node, nb # rest) # ws \<Rightarrow>
          let d1 = d\<lparr>d_work := (node, rest) # ws\<rparr>
          in case d_position d nb of
               Some pos \<Rightarrow> report_cycle pos d1
             | None \<Rightarrow>
                 if nb \<in> d_visited d then d1
                 else d1\<lparr>d_position := (d_position d)(nb \<mapsto> length (d_stack d)),
                         d_stack := d_stack d @ [nb],
                         d_work := (nb, adjacency wg nb) # (node, rest) # ws\<rparr>)"

definition universe :: "'n wait_for \<Rightarrow> 'n dfs \<Rightarrow> 'n set" where
  "universe wg d = (\<Union>(n, ts) \<in> set wg. set ts) \<union> (\<Union>(n, p) \<in> set (d_work d). set p)"

definition unseen :: "'n wait_for \<Rightarrow> 'n dfs \<Rightarrow> nat" where
  "unseen wg d = card (universe wg d - d_visited d - dom (d_position d))"

definition pending :: "'n dfs \<Rightarrow> nat" where
  "pending d = sum_list (map (\<lambda>(n, p). Suc (length p)) (d_work d))"

lemma targets_sub: "set (targets wg n) \<subseteq> (\<Union>(n, ts) \<in> set wg. set ts)"
proof (cases "map_of wg n")
  case (Some ts)
  then have "(n, ts) \<in> set wg" by (rule map_of_SomeD)
  with Some show ?thesis by (force simp: targets_def)
qed (simp add: targets_def)

lemma finite_universe [simp]: "finite (universe wg d)"
  by (auto simp: universe_def)

lemma report_cycle_sel [simp]:
  "d_visited (report_cycle pos d) = d_visited d" "d_stack (report_cycle pos d) = d_stack d"
  "d_position (report_cycle pos d) = d_position d" "d_work (report_cycle pos d) = d_work d"
  by (simp_all add: report_cycle_def Let_def)

lemma dfs_step_decreases:
  assumes "d_work d \<noteq> []"
  shows "unseen wg (dfs_step wg d) < unseen wg d \<or>
    unseen wg (dfs_step wg d) \<le> unseen wg d \<and> pending (dfs_step wg d) < pending d"
proof -
  obtain node p ws where w: "d_work d = (node, p) # ws" using assms by (cases "d_work d") auto
  let ?d = "dfs_step wg d"
  show ?thesis
  proof (cases "\<exists>nb rest. p = nb # rest \<and> d_position d nb = None \<and> nb \<notin> d_visited d")
    case True
    then obtain nb rest where p: "p = nb # rest" "d_position d nb = None" "nb \<notin> d_visited d"
      by blast
    have "universe wg ?d \<subseteq> universe wg d"
      using targets_sub [of wg nb] by (auto simp: dfs_step_def w p universe_def adjacency_def)
    moreover have "nb \<in> universe wg d" by (simp add: universe_def w p)
    ultimately have "universe wg ?d - d_visited ?d - dom (d_position ?d)
        \<subset> universe wg d - d_visited d - dom (d_position d)"
      using p by (auto simp: dfs_step_def w)
    then show ?thesis unfolding unseen_def by (simp add: psubset_card_mono)
  next
    case False
    then have "universe wg ?d - d_visited ?d - dom (d_position ?d)
        \<subseteq> universe wg d - d_visited d - dom (d_position d) \<and> pending ?d < pending d"
      by (cases p) (auto simp: dfs_step_def w universe_def pending_def Let_def
          split: option.splits if_splits)
    then show ?thesis unfolding unseen_def by (simp add: card_mono)
  qed
qed

function dfs_loop :: "'n::linorder wait_for \<Rightarrow> 'n dfs \<Rightarrow> 'n dfs" where
  "dfs_loop wg d = (if d_work d = [] then d else dfs_loop wg (dfs_step wg d))"
  by pat_completeness auto
termination
  by (relation "measures [\<lambda>(wg, d). unseen wg d, \<lambda>(wg, d). pending d]")
    (auto dest: dfs_step_decreases simp: le_less)

declare dfs_loop.simps [simp del]

definition search_root :: "'n::linorder wait_for \<Rightarrow> 'n \<Rightarrow> 'n dfs \<Rightarrow> 'n dfs" where
  "search_root wg root d =
     (if root \<in> d_visited d then d
      else dfs_loop wg (d\<lparr>d_work := [(root, adjacency wg root)], d_stack := d_stack d @ [root],
                          d_position := (d_position d)(root \<mapsto> 0)\<rparr>))"

definition dfs_start :: "'n dfs" where
  "dfs_start = \<lparr>d_cycles = [], d_seen = {}, d_visited = {}, d_stack = [],
     d_position = Map.empty, d_work = []\<rparr>"

definition find_cycles :: "'n::linorder wait_for \<Rightarrow> 'n list list" where
  "find_cycles wg = sort (d_cycles (fold (search_root wg) (sort (map fst wg)) dfs_start))"

section \<open>Genuine cycles\<close>

definition waits_on :: "'n wait_for \<Rightarrow> 'n \<Rightarrow> 'n \<Rightarrow> bool" where
  "waits_on wg a b \<longleftrightarrow> b \<in> set (targets wg a)"

definition is_cycle :: "'n wait_for \<Rightarrow> 'n list \<Rightarrow> bool" where
  "is_cycle wg c \<longleftrightarrow> c \<noteq> [] \<and> distinct c \<and>
     (\<forall>i < length c. waits_on wg (c ! i) (c ! (Suc i mod length c)))"

lemma rotate_is_cycle: "is_cycle wg c \<Longrightarrow> is_cycle wg (rotate k c)"
proof -
  assume c: "is_cycle wg c"
  have "waits_on wg (rotate k c ! i) (rotate k c ! (Suc i mod length c))" if "i < length c" for i
  proof -
    have "rotate k c ! i = c ! ((k + i) mod length c)"
      using that by (rule nth_rotate)
    moreover have "rotate k c ! (Suc i mod length c) = c ! (Suc ((k + i) mod length c) mod length c)"
      using that by (subst nth_rotate) (auto simp: mod_Suc_eq mod_simps intro: mod_less_divisor)
    ultimately show ?thesis
      using c that by (simp add: is_cycle_def)
  qed
  then show ?thesis using c by (simp add: is_cycle_def)
qed

lemma normalize_rotate: "\<exists>k. normalize_cycle c = rotate k c"
proof -
  let ?k = "length (takeWhile (\<lambda>x. x \<noteq> Min (set c)) c)"
  have "?k \<le> length c" by (rule length_takeWhile_le)
  then have "drop ?k c @ take ?k c = rotate ?k c"
    by (cases "?k = length c") (simp_all add: rotate_drop_take)
  then show ?thesis unfolding normalize_cycle_def Let_def by blast
qed

lemma normalize_is_cycle: "is_cycle wg c \<Longrightarrow> is_cycle wg (normalize_cycle c)"
  using normalize_rotate [of c] rotate_is_cycle by metis

lemma set_normalize: "set (normalize_cycle c) = set c"
  using normalize_rotate [of c] by (metis set_rotate)

text \<open>The state of the search: the stack is a path, the two auxiliary structures mirror it.\<close>

definition is_path :: "'n wait_for \<Rightarrow> 'n list \<Rightarrow> bool" where
  "is_path wg ns \<longleftrightarrow> (\<forall>i. Suc i < length ns \<longrightarrow> waits_on wg (ns ! i) (ns ! Suc i))"

definition dfs_ok :: "'n wait_for \<Rightarrow> 'n dfs \<Rightarrow> bool" where
  "dfs_ok wg d \<longleftrightarrow>
     map fst (d_work d) = rev (d_stack d) \<and> distinct (d_stack d) \<and>
     (\<forall>n i. d_position d n = Some i \<longleftrightarrow> i < length (d_stack d) \<and> d_stack d ! i = n) \<and>
     is_path wg (d_stack d) \<and> set (d_stack d) \<inter> d_visited d = {} \<and>
     (\<forall>(n, p) \<in> set (d_work d). set p \<subseteq> set (targets wg n)) \<and>
     (\<forall>c \<in> set (d_cycles d). is_cycle wg c) \<and> d_seen d = set (d_cycles d)"

lemma is_path_snoc:
  "is_path wg (ns @ [m]) \<longleftrightarrow> is_path wg ns \<and> (ns \<noteq> [] \<longrightarrow> waits_on wg (last ns) m)"
proof (cases ns rule: rev_cases)
  case (snoc ks k)
  have "is_path wg (ns @ [m]) \<longleftrightarrow>
      (\<forall>i. Suc i < length ns \<longrightarrow> waits_on wg (ns ! i) (ns ! Suc i)) \<and> waits_on wg (ns ! length ks) m"
    by (auto simp: is_path_def nth_append snoc less_Suc_eq)
  then show ?thesis by (simp add: is_path_def snoc)
qed (simp add: is_path_def)

lemma is_path_drop: "is_path wg ns \<Longrightarrow> is_path wg (drop k ns)"
  by (auto simp: is_path_def)

text \<open>An edge from the end of a path back to a node on it closes a cycle.\<close>

lemma back_edge_cycle:
  assumes "is_path wg ns" "distinct ns" "pos < length ns" "waits_on wg (last ns) (ns ! pos)"
  shows "is_cycle wg (drop pos ns)"
proof -
  let ?c = "drop pos ns"
  have len: "length ?c = length ns - pos" by simp
  have "waits_on wg (?c ! i) (?c ! (Suc i mod length ?c))" if "i < length ?c" for i
  proof (cases "Suc i = length ?c")
    case True
    then have "pos + i = length ns - 1" using assms(3) by simp
    moreover have "ns \<noteq> []" using assms(3) by auto
    ultimately have "?c ! i = last ns" using assms(3) by (simp add: last_conv_nth)
    with True assms(3,4) show ?thesis by simp
  next
    case False
    with that have "Suc i < length ?c" by simp
    then show ?thesis using is_path_drop [OF assms(1)] by (simp add: is_path_def)
  qed
  then show ?thesis using assms(2,3) by (simp add: is_cycle_def)
qed

lemma dfs_okD:
  assumes "dfs_ok wg d"
  shows "d_stack d = rev (map fst (d_work d))" "distinct (d_stack d)" "is_path wg (d_stack d)"
    "d_position d n = Some i \<longleftrightarrow> i < length (d_stack d) \<and> d_stack d ! i = n"
    "set (d_stack d) \<inter> d_visited d = {}"
    "(n, p) \<in> set (d_work d) \<Longrightarrow> set p \<subseteq> set (targets wg n)"
    "c \<in> set (d_cycles d) \<Longrightarrow> is_cycle wg c" "d_seen d = set (d_cycles d)"
  using assms by (auto simp: dfs_ok_def)

lemma position_None: "dfs_ok wg d \<Longrightarrow> d_position d n = None \<longleftrightarrow> n \<notin> set (d_stack d)"
  using dfs_okD(4) [of wg d n] by (metis in_set_conv_nth not_None_eq option.simps(3))

lemma dfs_ok_pop:
  assumes ok: "dfs_ok wg d" and w: "d_work d = (node, []) # ws"
  shows "dfs_ok wg (dfs_step wg d)"
proof -
  define st where "st = rev (map fst ws)"
  have st: "d_stack d = st @ [node]" using dfs_okD(1) [OF ok] w by (simp add: st_def)
  have "node \<notin> set st" using dfs_okD(2) [OF ok] unfolding st by simp
  then have "((d_position d)(node := None)) n = Some i \<longleftrightarrow> i < length st \<and> st ! i = n" for n i
    using dfs_okD(4) [OF ok, of n i] nth_mem [of i st] unfolding st
    by (auto simp: nth_append less_Suc_eq)
  moreover have "is_path wg st" using dfs_okD(3) [OF ok] unfolding st is_path_snoc by simp
  ultimately show ?thesis
    using ok st unfolding dfs_ok_def by (auto simp: dfs_step_def w Let_def st_def)
qed

lemma dfs_ok_report:
  assumes ok: "dfs_ok wg d" and w: "d_work d = (node, nb # rest) # ws"
    and pos: "d_position d nb = Some pos"
  shows "dfs_ok wg (dfs_step wg d)" "is_cycle wg (normalize_cycle (drop pos (d_stack d)))"
    "nb \<in> set (normalize_cycle (drop pos (d_stack d)))"
proof -
  have pos': "pos < length (d_stack d)" "d_stack d ! pos = nb"
    using dfs_okD(4) [OF ok] pos by auto
  have "last (d_stack d) = node" using dfs_okD(1) [OF ok] w by simp
  then have "waits_on wg (last (d_stack d)) (d_stack d ! pos)"
    using dfs_okD(6) [OF ok, of node "nb # rest"] w pos' by (auto simp: waits_on_def)
  then have "is_cycle wg (drop pos (d_stack d))"
    using dfs_okD(2,3) [OF ok] pos' by (intro back_edge_cycle)
  then show cyc: "is_cycle wg (normalize_cycle (drop pos (d_stack d)))"
    by (rule normalize_is_cycle)
  show "nb \<in> set (normalize_cycle (drop pos (d_stack d)))"
    using pos' by (metis Cons_nth_drop_Suc list.set_intros(1) set_normalize)
  show "dfs_ok wg (dfs_step wg d)"
    using ok cyc unfolding dfs_ok_def
    by (auto simp: dfs_step_def w pos report_cycle_def Let_def)
qed

lemma dfs_ok_push:
  assumes ok: "dfs_ok wg d" and w: "d_work d = (node, nb # rest) # ws"
    and pos: "d_position d nb = None" and nv: "nb \<notin> d_visited d"
  shows "dfs_ok wg (dfs_step wg d)"
proof -
  have ns: "nb \<notin> set (d_stack d)" using position_None [OF ok] pos by simp
  have "last (d_stack d) = node" "d_stack d \<noteq> []" using dfs_okD(1) [OF ok] w by auto
  then have "is_path wg (d_stack d @ [nb])"
    using dfs_okD(3) [OF ok] dfs_okD(6) [OF ok, of node "nb # rest"] w
    by (simp add: is_path_snoc waits_on_def)
  moreover have "((d_position d)(nb \<mapsto> length (d_stack d))) n = Some i \<longleftrightarrow>
      i < length (d_stack d @ [nb]) \<and> (d_stack d @ [nb]) ! i = n" for n i
    using dfs_okD(4) [OF ok, of n i] ns by (auto simp: nth_append less_Suc_eq)
  ultimately show ?thesis
    using ok ns nv unfolding dfs_ok_def
    by (auto simp: dfs_step_def w pos Let_def adjacency_def)
qed

lemma dfs_ok_skip:
  assumes "dfs_ok wg d" "d_work d = (node, nb # rest) # ws"
    "d_position d nb = None" "nb \<in> d_visited d"
  shows "dfs_ok wg (dfs_step wg d)"
  using assms by (auto simp: dfs_ok_def dfs_step_def Let_def)

lemma dfs_ok_step:
  assumes ok: "dfs_ok wg d"
  shows "dfs_ok wg (dfs_step wg d)"
proof (cases "d_work d")
  case Nil
  then show ?thesis using ok by (simp add: dfs_step_def)
next
  case (Cons x ws)
  obtain node p where x: "x = (node, p)" by (cases x)
  show ?thesis
  proof (cases p)
    case Nil
    then show ?thesis using dfs_ok_pop [OF ok] Cons x by simp
  next
    case (Cons nb rest)
    then show ?thesis
      using dfs_ok_report(1) [OF ok] dfs_ok_push [OF ok] dfs_ok_skip [OF ok] \<open>d_work d = x # ws\<close> x
      by (cases "d_position d nb"; cases "nb \<in> d_visited d") simp_all
  qed
qed

section \<open>Every cycle is met\<close>

text \<open>
  Let \<open>C\<close> be any set of nodes none of which occurs in a reported cycle. Among the nodes of \<open>C\<close>,
  whatever a finished node waits for is finished, and the finished part has no cycle.
\<close>

definition untouched :: "'n set \<Rightarrow> 'n dfs \<Rightarrow> bool" where
  "untouched C d \<longleftrightarrow> (\<forall>c \<in> set (d_cycles d). set c \<inter> C = {})"

definition edges_in :: "'n wait_for \<Rightarrow> 'n set \<Rightarrow> 'n set \<Rightarrow> ('n \<times> 'n) set" where
  "edges_in wg C V = {(v, w). v \<in> V \<and> v \<in> C \<and> w \<in> C \<and> waits_on wg v w}"

fun explored :: "'n wait_for \<Rightarrow> 'n set \<Rightarrow> 'n set \<Rightarrow> 'n option \<Rightarrow> ('n \<times> 'n list) list \<Rightarrow> bool" where
  "explored wg C V child [] = True"
| "explored wg C V child ((n, p) # ws) =
     ((n \<in> C \<longrightarrow> (\<forall>w \<in> C. waits_on wg n w \<longrightarrow> w \<in> set p \<or> w \<in> V \<or> Some w = child)) \<and>
      explored wg C V (Some n) ws)"

definition cover_ok :: "'n set \<Rightarrow> 'n wait_for \<Rightarrow> 'n dfs \<Rightarrow> bool" where
  "cover_ok C wg d \<longleftrightarrow>
     snd ` edges_in wg C (d_visited d) \<subseteq> d_visited d \<and> acyclic (edges_in wg C (d_visited d)) \<and>
     explored wg C (d_visited d) None (d_work d)"

lemma acyclic_source:
  assumes "acyclic R" and "fst ` S \<subseteq> {n}" and "n \<notin> snd ` (R \<union> S)"
  shows "acyclic (R \<union> S)"
proof -
  have path: "(x, y) \<in> R\<^sup>+" if "(x, y) \<in> (R \<union> S)\<^sup>+" "x \<noteq> n" for x y
    using that
  proof (induction rule: trancl_induct)
    case (base y)
    then show ?case using assms(2) by force
  next
    case (step y z)
    have "y \<in> snd ` (R \<union> S)" using step.hyps(1) by (metis snd_eq_Range trancl_range RangeI)
    then have "y \<noteq> n" using assms(3) by auto
    then have "(y, z) \<in> R" using step.hyps(2) assms(2) by force
    then show ?case using step by (meson trancl.trancl_into_trancl)
  qed
  have "x \<in> snd ` (R \<union> S)" if "(x, x) \<in> (R \<union> S)\<^sup>+" for x
    using that by (metis snd_eq_Range trancl_range RangeI)
  then show ?thesis using path assms(1,3) unfolding acyclic_def by metis
qed

lemma explored_mono: "explored wg C V child ws \<Longrightarrow> V \<subseteq> V' \<Longrightarrow> explored wg C V' child ws"
  by (induction wg C V child ws rule: explored.induct) auto

lemma explored_finish:
  "explored wg C V (Some n) ws \<Longrightarrow> explored wg C (insert n V) None ws"
  by (cases ws) (auto intro: explored_mono)

lemma cover_pop:
  assumes ok: "dfs_ok wg d" and cov: "cover_ok C wg d" and w: "d_work d = (node, []) # ws"
  shows "cover_ok C wg (dfs_step wg d)"
proof -
  let ?V = "d_visited d" and ?S = "{(v, w). v = node \<and> v \<in> C \<and> w \<in> C \<and> waits_on wg v w}"
  have last: "last (d_stack d) = node" using dfs_okD(1) [OF ok] w by simp
  have notin: "node \<notin> ?V" using dfs_okD(1,5) [OF ok] w by auto
  have E: "edges_in wg C (insert node ?V) = edges_in wg C ?V \<union> ?S"
    by (auto simp: edges_in_def)
  have S: "snd ` ?S \<subseteq> ?V" using cov w by (auto simp: cover_ok_def)
  have R: "snd ` edges_in wg C ?V \<subseteq> ?V" using cov by (simp add: cover_ok_def)
  have "acyclic (edges_in wg C ?V \<union> ?S)"
  proof (rule acyclic_source)
    show "acyclic (edges_in wg C ?V)" using cov by (simp add: cover_ok_def)
    show "node \<notin> snd ` (edges_in wg C ?V \<union> ?S)" using S R notin by blast
  qed auto
  moreover have "explored wg C (insert node ?V) None ws"
    using cov w by (auto simp: cover_ok_def intro: explored_finish)
  ultimately show ?thesis
    using S R unfolding cover_ok_def by (auto simp: dfs_step_def w last E Let_def image_Un)
qed

lemma cover_step:
  assumes ok: "dfs_ok wg d" and cov: "cover_ok C wg d" and un: "untouched C (dfs_step wg d)"
  shows "cover_ok C wg (dfs_step wg d)"
proof (cases "d_work d")
  case Nil
  then show ?thesis using cov by (simp add: dfs_step_def)
next
  case (Cons x ws)
  obtain node p where "x = (node, p)" by (cases x)
  with Cons have w: "d_work d = (node, p) # ws" by simp
  show ?thesis
  proof (cases p)
    case Nil
    then show ?thesis using cover_pop [OF ok cov] w by simp
  next
    case (Cons nb rest)
    note w = w [unfolded Cons]
    show ?thesis
    proof (cases "d_position d nb")
      case None
      then show ?thesis
        using cov w by (auto simp: cover_ok_def dfs_step_def Let_def adjacency_def waits_on_def)
    next
      case (Some pos)
      have "nb \<notin> C"
        using un dfs_ok_report(3) [OF ok w Some] dfs_okD(8) [OF ok]
        by (auto simp: untouched_def dfs_step_def w Some Let_def report_cycle_def split: if_splits)
      then show ?thesis
        using cov w Some by (auto simp: cover_ok_def dfs_step_def Let_def)
    qed
  qed
qed

section \<open>The whole search\<close>

lemma dfs_loop_ok: "dfs_ok wg d \<Longrightarrow> dfs_ok wg (dfs_loop wg d) \<and> d_work (dfs_loop wg d) = []"
proof (induction wg d rule: dfs_loop.induct)
  case (1 wg d)
  then show ?case by (cases "d_work d = []") (simp_all add: dfs_loop.simps [of wg d] dfs_ok_step)
qed

lemma step_grows:
  "set (d_cycles d) \<subseteq> set (d_cycles (dfs_step wg d))"
  "d_visited d \<union> set (d_stack d) \<subseteq> d_visited (dfs_step wg d) \<union> set (d_stack (dfs_step wg d))"
proof -
  have "set st \<subseteq> insert (last st) (set (butlast st))" for st :: "'a list"
    by (cases st rule: rev_cases) auto
  then show "d_visited d \<union> set (d_stack d) \<subseteq> d_visited (dfs_step wg d) \<union> set (d_stack (dfs_step wg d))"
    by (auto simp: dfs_step_def Let_def split: list.splits option.splits if_splits)
qed (auto simp: dfs_step_def Let_def report_cycle_def split: list.splits option.splits)

lemma loop_grows:
  "set (d_cycles d) \<subseteq> set (d_cycles (dfs_loop wg d)) \<and>
   d_visited d \<union> set (d_stack d) \<subseteq> d_visited (dfs_loop wg d) \<union> set (d_stack (dfs_loop wg d))"
proof (induction wg d rule: dfs_loop.induct)
  case (1 wg d)
  then show ?case
    using step_grows [of d wg] by (cases "d_work d = []") (auto simp: dfs_loop.simps [of wg d])
qed

lemma cover_loop:
  "dfs_ok wg d \<Longrightarrow> cover_ok C wg d \<Longrightarrow> untouched C (dfs_loop wg d) \<Longrightarrow> cover_ok C wg (dfs_loop wg d)"
proof (induction wg d rule: dfs_loop.induct)
  case (1 wg d)
  show ?case
  proof (cases "d_work d = []")
    case True
    then show ?thesis using 1 by (simp add: dfs_loop.simps [of wg d])
  next
    case False
    then have un: "untouched C (dfs_loop wg (dfs_step wg d))"
      using 1(4) by (simp add: dfs_loop.simps [of wg d])
    then have "untouched C (dfs_step wg d)"
      using loop_grows [of "dfs_step wg d" wg] by (auto simp: untouched_def)
    then have "cover_ok C wg (dfs_step wg d)" using 1(2,3) by (intro cover_step)
    then show ?thesis
      using 1(1) [OF False dfs_ok_step [OF 1(2)] _ un] False
      by (simp add: dfs_loop.simps [of wg d])
  qed
qed

text \<open>Between two roots the search is idle: nothing on the stack, nothing pending.\<close>

definition idle :: "'n::linorder wait_for \<Rightarrow> 'n dfs \<Rightarrow> bool" where
  "idle wg d \<longleftrightarrow> dfs_ok wg d \<and> d_work d = []"

lemma idle_stack: "idle wg d \<Longrightarrow> d_stack d = []" "idle wg d \<Longrightarrow> d_position d = Map.empty"
  using dfs_okD(1) [of wg d] dfs_okD(4) [of wg d]
  by (auto simp: idle_def fun_eq_iff) (metis not_Some_eq)

lemma root_ok:
  assumes "idle wg d" "root \<notin> d_visited d"
  shows "dfs_ok wg (d\<lparr>d_work := [(root, adjacency wg root)], d_stack := d_stack d @ [root],
                      d_position := (d_position d)(root \<mapsto> 0)\<rparr>)"
  using assms idle_stack [OF assms(1)]
  by (auto simp: idle_def dfs_ok_def is_path_def adjacency_def)

lemma search_root_idle:
  assumes "idle wg d"
  shows "idle wg (search_root wg root d)" "root \<in> d_visited (search_root wg root d)"
    "d_visited d \<subseteq> d_visited (search_root wg root d)"
    "set (d_cycles d) \<subseteq> set (d_cycles (search_root wg root d))"
proof -
  show i: "idle wg (search_root wg root d)"
    using assms dfs_loop_ok [OF root_ok [OF assms]] by (simp add: search_root_def idle_def)
  let ?d = "d\<lparr>d_work := [(root, adjacency wg root)], d_stack := d_stack d @ [root],
              d_position := (d_position d)(root \<mapsto> 0)\<rparr>"
  have "d_visited d \<union> {root} \<subseteq> d_visited (search_root wg root d)
      \<and> set (d_cycles d) \<subseteq> set (d_cycles (search_root wg root d))"
    using loop_grows [of ?d wg] idle_stack(1) [OF assms] idle_stack(1) [OF i]
    by (auto simp: search_root_def split: if_splits)
  then show "root \<in> d_visited (search_root wg root d)"
    "d_visited d \<subseteq> d_visited (search_root wg root d)"
    "set (d_cycles d) \<subseteq> set (d_cycles (search_root wg root d))" by auto
qed

lemma search_root_cover:
  assumes "idle wg d" "cover_ok C wg d" "untouched C (search_root wg root d)"
  shows "cover_ok C wg (search_root wg root d)"
  using assms cover_loop [OF root_ok [OF assms(1)]]
  by (auto simp: search_root_def cover_ok_def adjacency_def waits_on_def split: if_splits)

lemma search_all:
  assumes "idle wg d"
  shows "idle wg (fold (search_root wg) roots d)"
    "d_visited d \<union> set roots \<subseteq> d_visited (fold (search_root wg) roots d)"
    "set (d_cycles d) \<subseteq> set (d_cycles (fold (search_root wg) roots d))"
    "cover_ok C wg d \<Longrightarrow> untouched C (fold (search_root wg) roots d) \<Longrightarrow>
       cover_ok C wg (fold (search_root wg) roots d)"
  using assms
proof (induction roots arbitrary: d)
  case Nil
  {
    case 1
    then show ?case by simp
  next
    case 2
    then show ?case by simp
  next
    case 3
    then show ?case by simp
  next
    case 4
    then show ?case by simp
  }
next
  case (Cons r rs)
  note idl = search_root_idle [of wg _ r]
  {
    case 1
    then show ?case using Cons.IH(1) idl(1) by simp
  next
    case 2
    then show ?case using Cons.IH(2) [OF idl(1)] idl(2,3) by fastforce
  next
    case 3
    then show ?case using Cons.IH(3) [OF idl(1)] idl(4) by fastforce
  next
    case 4
    then have "untouched C (search_root wg r d)"
      using Cons.IH(3) [OF idl(1)] by (fastforce simp: untouched_def)
    then have "cover_ok C wg (search_root wg r d)" using 4 by (intro search_root_cover)
    with 4 show ?case using Cons.IH(4) [OF _ _ idl(1) [OF 4(3)]] by simp
  }
qed

lemma start_ok: "idle wg dfs_start" "cover_ok C wg dfs_start"
  by (auto simp: idle_def dfs_ok_def dfs_start_def is_path_def cover_ok_def edges_in_def acyclic_def)

lemma find_cycles_genuine: "c \<in> set (find_cycles wg) \<Longrightarrow> is_cycle wg c"
  using search_all(1) [OF start_ok(1)] dfs_okD(7) unfolding find_cycles_def idle_def by fastforce

lemma cycle_not_acyclic:
  assumes "is_cycle wg c" "set c \<subseteq> V"
  shows "\<not> acyclic (edges_in wg (set c) V)"
proof -
  let ?E = "edges_in wg (set c) V"
  have c: "c \<noteq> []" using assms(1) by (simp add: is_cycle_def)
  have edge: "(c ! i, c ! (Suc i mod length c)) \<in> ?E" if "i < length c" for i
    using assms that c by (auto simp: is_cycle_def edges_in_def)
  have "(c ! 0, c ! i) \<in> ?E\<^sup>*" if "i < length c" for i
    using that
  proof (induction i)
    case (Suc i)
    then show ?case using edge [of i] by (auto intro: rtrancl_into_rtrancl)
  qed simp
  then have "(c ! 0, c ! (length c - 1)) \<in> ?E\<^sup>*" using c by simp
  moreover have "(c ! (length c - 1), c ! 0) \<in> ?E" using edge [of "length c - 1"] c by simp
  ultimately show ?thesis unfolding acyclic_def by (meson rtrancl_into_trancl1)
qed

lemma find_cycles_meets:
  assumes cyc: "is_cycle wg c"
  shows "\<exists>c' \<in> set (find_cycles wg). set c' \<inter> set c \<noteq> {}"
proof (rule ccontr)
  let ?d = "fold (search_root wg) (sort (map fst wg)) dfs_start"
  assume "\<not> ?thesis"
  then have "untouched (set c) ?d" by (simp add: untouched_def find_cycles_def)
  then have cov: "cover_ok (set c) wg ?d"
    using search_all(4) [OF start_ok] by blast
  have "set c \<subseteq> fst ` set wg"
  proof
    fix x assume "x \<in> set c"
    then obtain i where "i < length c" "c ! i = x" by (auto simp: in_set_conv_nth)
    then have "set (targets wg x) \<noteq> {}" using cyc by (auto simp: is_cycle_def waits_on_def)
    then show "x \<in> fst ` set wg"
      by (cases "map_of wg x") (auto simp: targets_def dest: map_of_Some_key)
  qed
  then have "set c \<subseteq> d_visited ?d" using search_all(2) [OF start_ok(1)] by fastforce
  then show False using cov cycle_not_acyclic [OF cyc] by (simp add: cover_ok_def)
qed

end
