(* ===== verification/Leases.thy ===== *)
theory Leases
  imports Processes Deadlock
begin

text \<open>
  Resource leases with fencing tokens, \<open>agent_os/services/lease_service.py\<close>: atomic acquisition,
  release, renewal, reclamation of expired leases, the contracts an action is checked against,
  deadlock detection, and the replay handler.
\<close>

section \<open>Rows\<close>

definition get_lease :: "kstate \<Rightarrow> string \<Rightarrow> lease option" where
  "get_lease s lid = tbl_get l_lease_id (k_leases s) lid"

definition list_leases_for_pid :: "kstate \<Rightarrow> string \<Rightarrow> lease list" where
  "list_leases_for_pid s pid = filter (\<lambda>l. l_owner_pid l = pid) (k_leases s)"

definition list_active_leases_for_resource :: "kstate \<Rightarrow> string \<Rightarrow> lease list" where
  "list_active_leases_for_resource s rid = filter (\<lambda>l. l_resource_id l = rid) (k_leases s)"

definition list_waiters :: "kstate \<Rightarrow> string \<Rightarrow> string list" where
  "list_waiters s rid = map w_pid (filter (\<lambda>w. w_resource_id w = rid) (k_waiters s))"

text \<open>\<open>INSERT INTO leases_projection\<close>, whose primary key is the lease id.\<close>

definition insert_lease :: "lease \<Rightarrow> unit kop" where
  "insert_lease l s =
     (if l_lease_id l \<in> l_lease_id ` set (k_leases s)
      then (Inl (IntegrityError ''UNIQUE constraint failed: leases_projection.lease_id''), s)
      else (Inr (), s\<lparr>k_leases := k_leases s @ [l]\<rparr>))"

text \<open>\<open>DELETE FROM leases_projection WHERE ...\<close> and its row count.\<close>

definition delete_leases :: "(lease \<Rightarrow> bool) \<Rightarrow> nat kop" where
  "delete_leases P s =
     (Inr (length (filter P (k_leases s))), s\<lparr>k_leases := filter (\<lambda>l. \<not> P l) (k_leases s)\<rparr>)"

definition set_fence :: "string \<Rightarrow> int \<Rightarrow> kstate \<Rightarrow> kstate" where
  "set_fence rid t s = s\<lparr>k_fences := (k_fences s)(rid \<mapsto> t)\<rparr>"

definition clear_waiters_for_pid :: "string \<Rightarrow> nat kop" where
  "clear_waiters_for_pid pid s =
     (Inr (length (filter (\<lambda>w. w_pid w = pid) (k_waiters s))),
      s\<lparr>k_waiters := filter (\<lambda>w. w_pid w \<noteq> pid) (k_waiters s)\<rparr>)"

definition remove_waiter :: "string \<Rightarrow> string \<Rightarrow> nat kop" where
  "remove_waiter pid rid s =
     (Inr (length (filter (\<lambda>w. w_pid w = pid \<and> w_resource_id w = rid) (k_waiters s))),
      s\<lparr>k_waiters := filter (\<lambda>w. \<not> (w_pid w = pid \<and> w_resource_id w = rid)) (k_waiters s)\<rparr>)"

text \<open>\<open>INSERT OR IGNORE\<close> under the primary key (pid, resource).\<close>

definition add_waiter :: "string \<Rightarrow> string \<Rightarrow> kstate \<Rightarrow> kstate" where
  "add_waiter pid rid s =
     (if \<exists>w \<in> set (k_waiters s). w_pid w = pid \<and> w_resource_id w = rid then s
      else s\<lparr>k_waiters := k_waiters s @ [\<lparr>w_pid = pid, w_resource_id = rid, w_wait_since = k_now s\<rparr>]\<rparr>)"

section \<open>Acquisition\<close>

definition DEFAULT_LEASE_TTL :: int where
  "DEFAULT_LEASE_TTL = 300 * 10 ^ 6"

fun first_duplicate :: "string list \<Rightarrow> string set \<Rightarrow> string option" where
  "first_duplicate [] seen = None"
| "first_duplicate (r # rs) seen = (if r \<in> seen then Some r else first_duplicate rs (insert r seen))"

definition conflicts :: "claim \<Rightarrow> lease \<Rightarrow> bool" where
  "conflicts c l \<longleftrightarrow> l_resource_id l = cl_resource_id c \<and> (cl_mode c = Exclusive \<or> l_mode l = Exclusive)"

definition busy_claim :: "lease list \<Rightarrow> claim list \<Rightarrow> claim option" where
  "busy_claim active claims = find (\<lambda>c. \<exists>l \<in> set active. conflicts c l) claims"

text \<open>
  The token of one claim: a later shared reader joins the generation of the readers present,
  any other acquisition opens a new one.
\<close>

definition claim_token :: "lease list \<Rightarrow> claim \<Rightarrow> int kop" where
  "claim_token active c =
     (let rid = cl_resource_id c;
          cohort = remdups (map l_fencing_token (filter (\<lambda>l. l_resource_id l = rid) active))
      in if cl_mode c = Shared \<and> cohort \<noteq> [] then
           (if length cohort \<noteq> 1 \<or> hd cohort \<le> 0
            then raise (KernelInvariantViolation (''shared fencing cohort is inconsistent for '' @ rid))
            else bind_op (gets (\<lambda>s. k_fences s rid)) (\<lambda>token_row.
                 if token_row \<noteq> Some (hd cohort)
                 then raise (KernelInvariantViolation (''shared fencing cohort is superseded for '' @ rid))
                 else ret (hd cohort)))
         else bind_op (gets (\<lambda>s. k_fences s rid)) (\<lambda>token_row.
              let token = (case token_row of Some t \<Rightarrow> t + 1 | None \<Rightarrow> 1)
              in then_op (modify (set_fence rid token)) (ret token)))"

definition acquire_claim :: "string \<Rightarrow> time \<Rightarrow> lease list \<Rightarrow> claim \<Rightarrow> lease kop" where
  "acquire_claim pid expires_at active c =
     bind_op (claim_token active c) (\<lambda>token.
     bind_op uuid4 (\<lambda>i. bind_op (gets k_now) (\<lambda>now.
     let l = \<lparr>l_lease_id = i, l_resource_id = cl_resource_id c, l_owner_pid = pid, l_mode = cl_mode c,
              l_fencing_token = token, l_acquired_at = now, l_expires_at = expires_at,
              l_renewable = True, l_revocable = True\<rparr>
     in then_op (insert_lease l) (ret l))))"

definition acquire_claims :: "string \<Rightarrow> time \<Rightarrow> lease list \<Rightarrow> claim list \<Rightarrow> lease list kop" where
  "acquire_claims pid expires_at active claims =
     fold_op (\<lambda>c leases. bind_op (acquire_claim pid expires_at active c) (\<lambda>l. ret (leases @ [l])))
       claims []"

text \<open>
  The writer transaction: the claim that is busy, or the leases obtained.
\<close>

definition acquire_tx :: "string \<Rightarrow> claim list \<Rightarrow> int \<Rightarrow> (claim option \<times> lease list) kop" where
  "acquire_tx pid claims ttl =
     bind_op (gets (\<lambda>s. get_process s pid)) (\<lambda>process_row.
     if (case process_row of Some p \<Rightarrow> p_state p \<in> TERMINAL_PROCESS_STATES | None \<Rightarrow> False)
     then raise (LeaseAcquisitionFailed pid (cl_resource_id (hd claims)))
     else bind_op (gets k_leases) (\<lambda>active.
       case busy_claim active claims of
         Some c \<Rightarrow> ret (Some c, [])
       | None \<Rightarrow>
           bind_op (gets k_now) (\<lambda>now.
           bind_op (acquire_claims pid (now + ttl) active claims) (\<lambda>leases.
           then_op (clear_waiters_for_pid pid)
           (then_op (emit_tx (map (\<lambda>l. (pid, ''LEASE_ACQUIRED'', PLease l)) leases))
           (ret (None, leases)))))))"

definition refuse_busy :: "string \<Rightarrow> claim \<Rightarrow> lease list kop" where
  "refuse_busy pid c =
     then_op (clear_waiters_for_pid pid)
     (then_op (modify (add_waiter pid (cl_resource_id c)))
     (then_op (emit pid ''LEASE_ACQUIRE_FAILED'' (PDict
        [(''resource_id'', VStr (cl_resource_id c)),
         (''mode'', VStr (mode_value (cl_mode c))), (''reason'', VStr ''resource_busy'')]))
     (raise (LeaseAcquisitionFailed pid (cl_resource_id c)))))"

definition atomic_acquire :: "string \<Rightarrow> claim list \<Rightarrow> int \<Rightarrow> lease list kop" where
  "atomic_acquire pid claims ttl =
     (if claims = [] then then_op (clear_waiters_for_pid pid) (ret [])
      else case first_duplicate (map cl_resource_id claims) {} of
        Some rid \<Rightarrow> raise (LeaseAcquisitionFailed pid rid)
      | None \<Rightarrow>
          bind_op (transaction (acquire_tx pid claims ttl)) (\<lambda>(failed, leases).
          case failed of None \<Rightarrow> ret leases | Some c \<Rightarrow> refuse_busy pid c))"

section \<open>Release, renewal, expiry\<close>

definition released_event :: "lease \<Rightarrow> string \<times> string \<times> payload" where
  "released_event l = (l_owner_pid l, ''LEASE_RELEASED'', PDict
     [(''lease_id'', VStr (l_lease_id l)), (''resource_id'', VStr (l_resource_id l)),
      (''owner_pid'', VStr (l_owner_pid l))])"

definition expired_event :: "lease \<Rightarrow> string \<times> string \<times> payload" where
  "expired_event l = (l_owner_pid l, ''LEASE_EXPIRED'', PDict
     [(''lease_id'', VStr (l_lease_id l)), (''resource_id'', VStr (l_resource_id l))])"

definition release_one :: "string \<Rightarrow> lease list \<Rightarrow> lease list kop" where
  "release_one lid done =
     bind_op (gets (\<lambda>s. get_lease s lid)) (\<lambda>row. case row of
       None \<Rightarrow> ret done
     | Some l \<Rightarrow> then_op (delete_leases (\<lambda>x. l_lease_id x = lid)) (ret (done @ [l])))"

definition release :: "string list \<Rightarrow> nat kop" where
  "release lease_ids =
     (if lease_ids = [] then ret 0
      else transaction
        (bind_op (fold_op release_one lease_ids []) (\<lambda>rows.
         then_op (emit_tx (map released_event rows)) (ret (length rows)))))"

text \<open>The selection loop of \<open>release_all_for_pid\<close> and \<open>reclaim_expired\<close>.\<close>

definition delete_selected :: "(lease \<Rightarrow> bool) \<Rightarrow> lease \<Rightarrow> lease list \<Rightarrow> lease list kop" where
  "delete_selected P l done =
     bind_op (delete_leases (\<lambda>x. l_lease_id x = l_lease_id l \<and> P x)) (\<lambda>rowcount.
     if rowcount \<noteq> 1 then ret done else ret (done @ [l]))"

definition release_all_for_pid :: "string \<Rightarrow> nat kop" where
  "release_all_for_pid pid =
     (if pid = [] then raise (ValueError ''pid must be a non-empty string'')
      else transaction
        (bind_op (gets (\<lambda>s. list_leases_for_pid s pid)) (\<lambda>rows.
         bind_op (fold_op (delete_selected (\<lambda>x. l_owner_pid x = pid)) rows []) (\<lambda>released.
         then_op (clear_waiters_for_pid pid)
         (then_op (emit_tx (map released_event released)) (ret (length released)))))))"

definition extend_lease :: "string \<Rightarrow> time \<Rightarrow> time \<Rightarrow> nat kop" where
  "extend_lease lid now new_expiry s =
     (let hit = (\<lambda>l. l_lease_id l = lid \<and> now < l_expires_at l)
      in (Inr (length (filter hit (k_leases s))),
          s\<lparr>k_leases := tbl_update hit (\<lambda>l. l\<lparr>l_expires_at := new_expiry\<rparr>) (k_leases s)\<rparr>))"

definition renew :: "string \<Rightarrow> int \<Rightarrow> lease option kop" where
  "renew lid ttl = transaction
     (bind_op (gets k_now) (\<lambda>check_now.
      let new_expiry = check_now + ttl in
      bind_op (extend_lease lid check_now new_expiry) (\<lambda>rowcount.
      if rowcount = 0 then ret None
      else bind_op (gets (\<lambda>s. get_lease s lid)) (\<lambda>row. case row of
        None \<Rightarrow> raise (KernelInvariantViolation (''lease '' @ lid @ '' disappeared after a successful renewal update''))
      | Some l \<Rightarrow>
          then_op (emit_tx [(l_owner_pid l, ''LEASE_RENEWED'', PDict
             [(''lease_id'', VStr lid), (''resource_id'', VStr (l_resource_id l)),
              (''owner_pid'', VStr (l_owner_pid l)), (''new_expiry'', VInt new_expiry),
              (''fencing_token'', VInt (l_fencing_token l))])])
          (ret (Some (l\<lparr>l_expires_at := new_expiry\<rparr>)))))))"

definition reclaim_expired :: "time \<Rightarrow> nat kop" where
  "reclaim_expired cutoff = transaction
     (bind_op (gets (\<lambda>s. filter (\<lambda>l. l_expires_at l \<le> cutoff) (k_leases s))) (\<lambda>rows.
      bind_op (fold_op (delete_selected (\<lambda>x. l_expires_at x \<le> cutoff)) rows []) (\<lambda>reclaimed.
      then_op (emit_tx (concat (map (\<lambda>l. [released_event l, expired_event l]) reclaimed)))
      (ret (length reclaimed)))))"

section \<open>Contracts\<close>

fun contract_leases :: "kstate \<Rightarrow> string \<Rightarrow> time \<Rightarrow> string list \<Rightarrow> string + lease list" where
  "contract_leases s pid now [] = Inr []"
| "contract_leases s pid now (lid # lids) =
     (case get_lease s lid of
        None \<Rightarrow> Inl ''lease_missing''
      | Some l \<Rightarrow>
          if l_owner_pid l \<noteq> pid then Inl ''lease_owner_mismatch''
          else if l_expires_at l \<le> now then Inl ''lease_expired''
          else (case contract_leases s pid now lids of
                  Inl e \<Rightarrow> Inl e
                | Inr ls \<Rightarrow> Inr (l # ls)))"

text \<open>\<open>(valid, error)\<close>; a valid contract has no error.\<close>

definition validate_action_contract ::
    "kstate \<Rightarrow> string \<Rightarrow> claim list \<Rightarrow> string list \<Rightarrow> time \<Rightarrow> bool \<times> string option" where
  "validate_action_contract s pid claims lease_ids now =
     (if claims = []
      then (if lease_ids = [] then (True, None) else (False, Some ''unexpected_leases''))
      else if length lease_ids \<noteq> length claims \<or> length (remdups lease_ids) \<noteq> length lease_ids
      then (False, Some ''lease_count_mismatch'')
      else case contract_leases s pid now lease_ids of
        Inl e \<Rightarrow> (False, Some e)
      | Inr leases \<Rightarrow>
          let expected = sort (map (\<lambda>c. (cl_resource_id c, cl_mode c)) claims);
              actual = sort (map (\<lambda>l. (l_resource_id l, l_mode l)) leases)
          in if actual \<noteq> expected then (False, Some ''lease_claim_mismatch'') else (True, None))"

fun token_bundle :: "kstate \<Rightarrow> string list \<Rightarrow> (string \<times> int) list \<Rightarrow> (string \<times> int) list option" where
  "token_bundle s [] out = Some out"
| "token_bundle s (lid # lids) out =
     (case get_lease s lid of
        None \<Rightarrow> None
      | Some l \<Rightarrow> token_bundle s lids (dict_set (l_resource_id l) (l_fencing_token l) out))"

definition capture_fencing_contract ::
    "kstate \<Rightarrow> string \<Rightarrow> claim list \<Rightarrow> string list \<Rightarrow> time \<Rightarrow> (string \<times> int) list option" where
  "capture_fencing_contract s pid claims lease_ids now =
     (if fst (validate_action_contract s pid claims lease_ids now)
      then token_bundle s lease_ids [] else None)"

fun check_tokens :: "kstate \<Rightarrow> (string \<times> int) list \<Rightarrow> string list \<Rightarrow> bool \<times> string option" where
  "check_tokens s tokens [] = (True, None)"
| "check_tokens s tokens (lid # lids) =
     (case get_lease s lid of
        None \<Rightarrow> (False, Some ''lease_missing'')
      | Some l \<Rightarrow>
          if map_of tokens (l_resource_id l) \<noteq> Some (l_fencing_token l)
          then (False, Some ''lease_fencing_token_mismatch'')
          else if k_fences s (l_resource_id l) \<noteq> Some (l_fencing_token l)
          then (False, Some ''resource_fencing_token_superseded'')
          else check_tokens s tokens lids)"

definition validate_fencing_contract ::
    "kstate \<Rightarrow> string \<Rightarrow> claim list \<Rightarrow> string list \<Rightarrow> (string \<times> int) list \<Rightarrow> time \<Rightarrow> bool \<times> string option"
where
  "validate_fencing_contract s pid claims lease_ids tokens now =
     (case validate_action_contract s pid claims lease_ids now of
        (False, e) \<Rightarrow> (False, e)
      | (True, _) \<Rightarrow>
          if fst ` set tokens \<noteq> cl_resource_id ` set claims
          then (False, Some ''fencing_token_count_mismatch'')
          else check_tokens s tokens lease_ids)"

section \<open>Deadlocks\<close>

definition owners :: "kstate \<Rightarrow> string \<Rightarrow> string list" where
  "owners s rid = map l_owner_pid (filter (\<lambda>l. l_resource_id l = rid) (k_leases s))"

definition wait_edge :: "string \<Rightarrow> string \<Rightarrow> string wait_for \<Rightarrow> string wait_for" where
  "wait_edge pid owner wg =
     (if owner = pid then wg else dict_set pid (List.insert owner (targets wg pid)) wg)"

definition wait_for_graph :: "kstate \<Rightarrow> string wait_for" where
  "wait_for_graph s =
     fold (\<lambda>w. fold (wait_edge (w_pid w)) (owners s (w_resource_id w))) (k_waiters s) []"

definition detect_deadlocks :: "kstate \<Rightarrow> string list list" where
  "detect_deadlocks s = find_cycles (wait_for_graph s)"

section \<open>Replay\<close>

text \<open>\<open>last_token = MAX(last_token, excluded.last_token)\<close>.\<close>

definition raise_fence :: "string \<Rightarrow> int \<Rightarrow> kstate \<Rightarrow> kstate" where
  "raise_fence rid t s =
     set_fence rid (case k_fences s rid of None \<Rightarrow> t | Some f \<Rightarrow> max f t) s"

definition lease_handle_event :: "event \<Rightarrow> unit kop" where
  "lease_handle_event ev =
     (if ev_event_type ev = ''LEASE_ACQUIRED'' then
        (case ev_payload ev of
           PLease l \<Rightarrow> modify (\<lambda>s. raise_fence (l_resource_id l) (l_fencing_token l)
             (s\<lparr>k_leases := tbl_replace l_lease_id l (k_leases s)\<rparr>))
         | _ \<Rightarrow> raise (OtherError ''ValidationError'' ''ResourceLease''))
      else if ev_event_type ev = ''LEASE_RELEASED'' \<or> ev_event_type ev = ''LEASE_EXPIRED'' then
        (case payload_get ev ''lease_id'' of
           VStr lid \<Rightarrow> then_op (delete_leases (\<lambda>l. l_lease_id l = lid)) (ret ())
         | _ \<Rightarrow> raise (OtherError ''KeyError'' ''lease_id''))
      else if ev_event_type ev = ''LEASE_RENEWED'' then
        (case (payload_get ev ''new_expiry'', payload_get ev ''lease_id'') of
           (VInt e, VStr lid) \<Rightarrow> modify (\<lambda>s. s\<lparr>k_leases :=
             tbl_update (\<lambda>l. l_lease_id l = lid) (\<lambda>l. l\<lparr>l_expires_at := e\<rparr>) (k_leases s)\<rparr>)
         | _ \<Rightarrow> raise (OtherError ''KeyError'' ''new_expiry''))
      else ret ())"

section \<open>What an acquisition does\<close>

definition next_fence :: "kstate \<Rightarrow> string \<Rightarrow> int" where
  "next_fence s rid = (case k_fences s rid of Some t \<Rightarrow> t + 1 | None \<Rightarrow> 1)"

definition on_resource :: "string \<Rightarrow> lease list \<Rightarrow> lease list" where
  "on_resource rid ls = filter (\<lambda>l. l_resource_id l = rid) ls"

text \<open>A new row together with the fence of its resource.\<close>

definition granted :: "lease \<Rightarrow> kstate \<Rightarrow> kstate" where
  "granted l s = s\<lparr>k_leases := k_leases s @ [l],
     k_fences := (k_fences s)(l_resource_id l \<mapsto> l_fencing_token l)\<rparr>"

definition new_lease :: "kstate \<Rightarrow> string \<Rightarrow> time \<Rightarrow> claim \<Rightarrow> int \<Rightarrow> lease" where
  "new_lease s pid expires_at c token =
     \<lparr>l_lease_id = uuid_hex (k_uuids s), l_resource_id = cl_resource_id c, l_owner_pid = pid,
      l_mode = cl_mode c, l_fencing_token = token, l_acquired_at = k_now s,
      l_expires_at = expires_at, l_renewable = True, l_revocable = True\<rparr>"

text \<open>The token rule: join the generation in use, or open the next one.\<close>

definition token_for :: "kstate \<Rightarrow> lease list \<Rightarrow> claim \<Rightarrow> int \<Rightarrow> bool" where
  "token_for s active c token \<longleftrightarrow>
     (if cl_mode c = Shared \<and> on_resource (cl_resource_id c) active \<noteq> []
      then (\<forall>l \<in> set (on_resource (cl_resource_id c) active). l_fencing_token l = token) \<and>
           0 < token \<and> k_fences s (cl_resource_id c) = Some token
      else token = next_fence s (cl_resource_id c))"

lemma remdups_singleton: "length (remdups xs) = 1 \<Longrightarrow> x \<in> set xs \<Longrightarrow> x = hd (remdups xs)"
proof -
  assume "length (remdups xs) = 1" "x \<in> set xs"
  then obtain y where "remdups xs = [y]" by (auto simp: length_Suc_conv)
  moreover from this have "set xs = {y}" using set_remdups [of xs] by simp
  ultimately show ?thesis using \<open>x \<in> set xs\<close> by simp
qed

lemma distinct_singleton: "distinct ys \<Longrightarrow> set ys = {t} \<Longrightarrow> ys = [t]"
proof (cases ys)
  case (Cons a as)
  moreover assume "distinct ys" "set ys = {t}"
  ultimately have "a = t" "t \<notin> set as" "set as \<subseteq> {t}" by auto
  then show ?thesis using Cons by (cases as) auto
qed auto

lemma claim_token_Inr:
  assumes "claim_token active c s = (Inr token, t)"
  shows "token_for s active c token"
    "t = s\<lparr>k_fences := (k_fences s)(cl_resource_id c \<mapsto> token)\<rparr>"
proof -
  let ?rid = "cl_resource_id c"
  let ?cohort = "remdups (map l_fencing_token (on_resource ?rid active))"
  note d = assms [unfolded claim_token_def Let_def, folded on_resource_def]
  have ne: "?cohort = [] \<longleftrightarrow> on_resource ?rid active = []" by simp
  show "token_for s active c token"
    using d remdups_singleton [of "map l_fencing_token (on_resource ?rid active)"]
    by (auto simp: token_for_def ne next_fence_def then_op_def bind_op_def
        split: if_splits option.splits)
  show "t = s\<lparr>k_fences := (k_fences s)(?rid \<mapsto> token)\<rparr>"
    using d by (auto simp: set_fence_def then_op_def bind_op_def fun_upd_idem
        split: if_splits option.splits)
qed

lemma claim_token_ok:
  assumes "token_for s active c token"
  shows "claim_token active c s = (Inr token, s\<lparr>k_fences := (k_fences s)(cl_resource_id c \<mapsto> token)\<rparr>)"
proof (cases "cl_mode c = Shared \<and> on_resource (cl_resource_id c) active \<noteq> []")
  case True
  let ?ts = "map l_fencing_token (on_resource (cl_resource_id c) active)"
  have t: "set ?ts \<subseteq> {token}" "?ts \<noteq> []" "0 < token" "k_fences s (cl_resource_id c) = Some token"
    using assms True by (auto simp: token_for_def)
  moreover obtain y ys where "?ts = y # ys" using t(2) by (cases ?ts) auto
  ultimately have "set ?ts = {token}" by auto
  then have "remdups ?ts = [token]"
    by (intro distinct_singleton) simp_all
  then show ?thesis
    using True t by (simp add: claim_token_def Let_def flip: on_resource_def) (auto simp: fun_upd_idem)
next
  case False
  then show ?thesis
    using assms by (auto simp: claim_token_def Let_def token_for_def next_fence_def set_fence_def
        on_resource_def)
qed

abbreviation lease_id_set :: "kstate \<Rightarrow> string set" where
  "lease_id_set s \<equiv> l_lease_id ` set (k_leases s)"

abbreviation drawn :: "kstate \<Rightarrow> kstate" where
  "drawn s \<equiv> s\<lparr>k_uuids := Suc (k_uuids s)\<rparr>"

lemma new_lease_sel [simp]:
  "l_lease_id (new_lease s pid e c tok) = uuid_hex (k_uuids s)"
  "l_resource_id (new_lease s pid e c tok) = cl_resource_id c"
  "l_owner_pid (new_lease s pid e c tok) = pid" "l_mode (new_lease s pid e c tok) = cl_mode c"
  "l_fencing_token (new_lease s pid e c tok) = tok" "l_expires_at (new_lease s pid e c tok) = e"
  by (simp_all add: new_lease_def)

lemma granted_sel [simp]:
  "k_leases (granted l s) = k_leases s @ [l]"
  "k_fences (granted l s) = (k_fences s)(l_resource_id l \<mapsto> l_fencing_token l)"
  "k_uuids (granted l s) = k_uuids s" "k_now (granted l s) = k_now s"
  "k_journal (granted l s) = k_journal s" "k_next_offset (granted l s) = k_next_offset s"
  "k_processes (granted l s) = k_processes s" "k_actions (granted l s) = k_actions s"
  "k_waiters (granted l s) = k_waiters s" "k_signals (granted l s) = k_signals s"
  "k_capability_sets (granted l s) = k_capability_sets s"
  by (simp_all add: granted_def)

lemma acquire_claim_Inr:
  assumes "acquire_claim pid e active c s = (Inr l, t)"
  shows "\<exists>tok. token_for s active c tok \<and> l = new_lease s pid e c tok \<and>
    uuid_hex (k_uuids s) \<notin> lease_id_set s \<and> t = granted l (drawn s)"
proof -
  obtain tok u where tok: "claim_token active c s = (Inr tok, u)"
    using assms by (auto simp: acquire_claim_def bind_op_eq_Inr_iff)
  note u = claim_token_Inr [OF tok]
  then show ?thesis
    using assms tok
    by (auto simp: acquire_claim_def bind_op_def then_op_def uuid4_def insert_lease_def Let_def
        new_lease_def granted_def split: if_splits)
qed

lemma acquire_claim_ok:
  assumes "token_for s active c tok" "uuid_hex (k_uuids s) \<notin> lease_id_set s"
  shows "acquire_claim pid e active c s =
    (Inr (new_lease s pid e c tok), granted (new_lease s pid e c tok) (drawn s))"
  using assms(2)
  by (simp add: acquire_claim_def bind_op_def then_op_def claim_token_ok [OF assms(1)] uuid4_def
      insert_lease_def new_lease_def granted_def Let_def)

text \<open>The run of the acquisition loop as a relation.\<close>

fun grants ::
    "string \<Rightarrow> time \<Rightarrow> lease list \<Rightarrow> claim list \<Rightarrow> lease list \<Rightarrow> kstate \<Rightarrow> kstate \<Rightarrow> bool" where
  "grants pid e active [] ls s t \<longleftrightarrow> ls = [] \<and> t = s"
| "grants pid e active (c # cs) ls s t \<longleftrightarrow>
     (\<exists>tok ls'. ls = new_lease s pid e c tok # ls' \<and> token_for s active c tok \<and>
        uuid_hex (k_uuids s) \<notin> lease_id_set s \<and>
        grants pid e active cs ls' (granted (new_lease s pid e c tok) (drawn s)) t)"

lemma acquire_claims_acc:
  "fold_op (\<lambda>c ls. bind_op (acquire_claim pid e active c) (\<lambda>l. ret (ls @ [l]))) cs acc s = (Inr r, t) \<longleftrightarrow>
     (\<exists>ls. r = acc @ ls \<and> grants pid e active cs ls s t)"
proof (induction cs arbitrary: acc s)
  case Nil
  then show ?case by auto
next
  case (Cons c cs)
  show ?case
  proof
    assume "fold_op (\<lambda>c ls. bind_op (acquire_claim pid e active c) (\<lambda>l. ret (ls @ [l]))) (c # cs) acc s = (Inr r, t)"
    then obtain l u where l: "acquire_claim pid e active c s = (Inr l, u)"
      and rest: "fold_op (\<lambda>c ls. bind_op (acquire_claim pid e active c) (\<lambda>l. ret (ls @ [l]))) cs (acc @ [l]) u = (Inr r, t)"
      by (auto simp: bind_op_eq_Inr_iff)
    obtain ls where "r = acc @ l # ls" "grants pid e active cs ls u t"
      using rest Cons.IH by auto
    with acquire_claim_Inr [OF l] show "\<exists>ls. r = acc @ ls \<and> grants pid e active (c # cs) ls s t"
      by (intro exI [of _ "l # ls"]) auto
  next
    assume "\<exists>ls. r = acc @ ls \<and> grants pid e active (c # cs) ls s t"
    then obtain tok ls where r: "r = acc @ new_lease s pid e c tok # ls"
      and tok: "token_for s active c tok" "uuid_hex (k_uuids s) \<notin> lease_id_set s"
      and g: "grants pid e active cs ls (granted (new_lease s pid e c tok) (drawn s)) t"
      by auto
    have one: "bind_op (acquire_claim pid e active c) (\<lambda>l. ret (acc @ [l])) s =
        (Inr (acc @ [new_lease s pid e c tok]), granted (new_lease s pid e c tok) (drawn s))"
      by (simp add: bind_op_def acquire_claim_ok [OF tok])
    show "fold_op (\<lambda>c ls. bind_op (acquire_claim pid e active c) (\<lambda>l. ret (ls @ [l]))) (c # cs) acc s = (Inr r, t)"
      unfolding fold_op_step [of "\<lambda>c ls. bind_op (acquire_claim pid e active c) (\<lambda>l. ret (ls @ [l]))",
          OF one] Cons.IH
      using r g by simp
  qed
qed

lemma acquire_claims_iff:
  "acquire_claims pid e active cs s = (Inr ls, t) \<longleftrightarrow> grants pid e active cs ls s t"
  using acquire_claims_acc [of pid e active cs "[]"] by (simp add: acquire_claims_def)

definition matches_claim :: "string \<Rightarrow> time \<Rightarrow> claim \<Rightarrow> lease \<Rightarrow> bool" where
  "matches_claim pid e c l \<longleftrightarrow> l_resource_id l = cl_resource_id c \<and> l_mode l = cl_mode c \<and>
     l_owner_pid l = pid \<and> l_expires_at l = e"

lemma grants_result:
  "grants pid e active cs ls s t \<Longrightarrow>
     list_all2 (matches_claim pid e) cs ls \<and> k_leases t = k_leases s @ ls \<and>
     k_uuids t = k_uuids s + length ls \<and> k_processes t = k_processes s \<and> k_actions t = k_actions s \<and>
     k_signals t = k_signals s \<and> k_waiters t = k_waiters s \<and> k_journal t = k_journal s \<and>
     k_next_offset t = k_next_offset s \<and> k_now t = k_now s \<and> k_capability_sets t = k_capability_sets s"
  by (induction cs arbitrary: ls s) (auto simp: matches_claim_def)

text \<open>A grant never lowers a fence, so it moves it as a replay would.\<close>

definition raised :: "lease \<Rightarrow> (string \<rightharpoonup> int) \<Rightarrow> string \<rightharpoonup> int" where
  "raised l F = F(l_resource_id l \<mapsto>
     (case F (l_resource_id l) of None \<Rightarrow> l_fencing_token l | Some f \<Rightarrow> max f (l_fencing_token l)))"

lemma grants_fences: "grants pid e active cs ls s t \<Longrightarrow> k_fences t = fold raised ls (k_fences s)"
proof (induction cs arbitrary: ls s)
  case (Cons c cs)
  then obtain tok ls' where g: "ls = new_lease s pid e c tok # ls'" "token_for s active c tok"
    "grants pid e active cs ls' (granted (new_lease s pid e c tok) (drawn s)) t" by auto
  have "(case k_fences s (cl_resource_id c) of None \<Rightarrow> tok | Some f \<Rightarrow> max f tok) = tok"
    using g(2) by (auto simp: token_for_def next_fence_def split: if_splits option.splits)
  then have "raised (new_lease s pid e c tok) (k_fences s) = (k_fences s)(cl_resource_id c \<mapsto> tok)"
    by (simp add: raised_def cong: option.case_cong)
  then show ?case using Cons.IH [OF g(3)] by (simp add: g(1) fun_upd_def)
qed simp

section \<open>The lease invariant\<close>

text \<open>
  Lease ids are distinct and none is still to be drawn; two leases on one resource are both
  shared; the token of a lease is the current fence of its resource, and fences are positive.
\<close>

definition lease_inv :: "kstate \<Rightarrow> bool" where
  "lease_inv s \<longleftrightarrow>
     distinct (map l_lease_id (k_leases s)) \<and>
     (\<forall>n \<ge> k_uuids s. uuid_hex n \<notin> lease_id_set s) \<and>
     (\<forall>l \<in> set (k_leases s). \<forall>l' \<in> set (k_leases s).
        l_resource_id l = l_resource_id l' \<and> l \<noteq> l' \<longrightarrow> l_mode l = Shared) \<and>
     (\<forall>l \<in> set (k_leases s). k_fences s (l_resource_id l) = Some (l_fencing_token l)) \<and>
     (\<forall>rid t. k_fences s rid = Some t \<longrightarrow> 0 < t)"

text \<open>The condition under which one more row may be granted.\<close>

definition grantable :: "kstate \<Rightarrow> lease \<Rightarrow> bool" where
  "grantable s l \<longleftrightarrow>
     l_lease_id l \<notin> lease_id_set s \<and>
     (\<forall>x \<in> set (on_resource (l_resource_id l) (k_leases s)). l_mode x = Shared \<and> l_mode l = Shared) \<and>
     (if on_resource (l_resource_id l) (k_leases s) = []
      then l_fencing_token l = next_fence s (l_resource_id l)
      else k_fences s (l_resource_id l) = Some (l_fencing_token l))"

lemma lease_invD:
  assumes "lease_inv s"
  shows "distinct (map l_lease_id (k_leases s))" "\<And>n. k_uuids s \<le> n \<Longrightarrow> uuid_hex n \<notin> lease_id_set s"
    "\<And>l l'. l \<in> set (k_leases s) \<Longrightarrow> l' \<in> set (k_leases s) \<Longrightarrow> l_resource_id l = l_resource_id l' \<Longrightarrow>
       l \<noteq> l' \<Longrightarrow> l_mode l = Shared"
    "\<And>l. l \<in> set (k_leases s) \<Longrightarrow> k_fences s (l_resource_id l) = Some (l_fencing_token l)"
    "\<And>rid t. k_fences s rid = Some t \<Longrightarrow> 0 < t"
  using assms unfolding lease_inv_def by blast+

lemma lease_inv_granted:
  assumes inv: "lease_inv s" and g: "grantable s l" and "\<forall>n \<ge> k_uuids s. uuid_hex n \<noteq> l_lease_id l"
  shows "lease_inv (granted l s)"
proof -
  let ?r = "l_resource_id l"
  have pos: "k_fences s ?r = Some t \<Longrightarrow> 0 < t" for t
    using inv by (rule lease_invD)
  have tok: "0 < l_fencing_token l"
  proof (cases "on_resource ?r (k_leases s) = []")
    case True
    then have "l_fencing_token l = next_fence s ?r" using g by (simp add: grantable_def)
    then show ?thesis using pos by (cases "k_fences s ?r") (simp_all add: next_fence_def less_imp_le)
  next
    case False
    then show ?thesis using g by (intro pos) (simp add: grantable_def)
  qed
  have same: "k_fences s ?r = Some (l_fencing_token l)" if "x \<in> set (k_leases s)" "l_resource_id x = ?r" for x
    using g that by (auto simp: grantable_def on_resource_def filter_empty_conv split: if_splits)
  have shared: "l_mode x = Shared \<and> l_mode l = Shared" if "x \<in> set (k_leases s)" "l_resource_id x = ?r" for x
    using g that by (auto simp: grantable_def on_resource_def)
  show ?thesis
    unfolding lease_inv_def
  proof (intro conjI)
    show "distinct (map l_lease_id (k_leases (granted l s)))"
      using lease_invD(1) [OF inv] g by (simp add: grantable_def)
    show "\<forall>n \<ge> k_uuids (granted l s). uuid_hex n \<notin> lease_id_set (granted l s)"
      using lease_invD(2) [OF inv] assms(3) by auto
    show "\<forall>x \<in> set (k_leases (granted l s)). \<forall>y \<in> set (k_leases (granted l s)).
        l_resource_id x = l_resource_id y \<and> x \<noteq> y \<longrightarrow> l_mode x = Shared"
      using lease_invD(3) [OF inv] shared by (auto; metis)
    show "\<forall>x \<in> set (k_leases (granted l s)). k_fences (granted l s) (l_resource_id x) = Some (l_fencing_token x)"
      using lease_invD(4) [OF inv] same by (auto; metis option.inject)
    show "\<forall>rid t. k_fences (granted l s) rid = Some t \<longrightarrow> 0 < t"
      using lease_invD(5) [OF inv] tok by simp
  qed
qed

lemma lease_inv_mono:
  assumes "lease_inv s" "k_leases t = k_leases s" "k_fences t = k_fences s" "k_uuids s \<le> k_uuids t"
  shows "lease_inv t"
  unfolding lease_inv_def assms(2,3)
  using lease_invD [OF assms(1)] assms(4) by (auto; meson le_trans)

lemma lease_inv_filter:
  "lease_inv s \<Longrightarrow> lease_inv (s\<lparr>k_leases := filter P (k_leases s)\<rparr>)"
  unfolding lease_inv_def by (simp add: distinct_map_filter) blast

lemma lease_inv_extend:
  assumes inv: "lease_inv s"
  shows "lease_inv (s\<lparr>k_leases := tbl_update P (\<lambda>l. l\<lparr>l_expires_at := e\<rparr>) (k_leases s)\<rparr>)"
proof -
  define ls where "ls = tbl_update P (\<lambda>l. l\<lparr>l_expires_at := e\<rparr>) (k_leases s)"
  have ids: "map l_lease_id ls = map l_lease_id (k_leases s)"
    unfolding ls_def by (rule map_key_update) simp
  then have idset: "l_lease_id ` set ls = lease_id_set s" by (metis image_set)
  have elem: "\<exists>a \<in> set (k_leases s). l_resource_id x = l_resource_id a \<and> l_mode x = l_mode a \<and>
      l_fencing_token x = l_fencing_token a \<and> l_lease_id x = l_lease_id a" if "x \<in> set ls" for x
    using that unfolding ls_def set_tbl_update by force
  have eq: "x = y" if "x \<in> set ls" "y \<in> set ls" "l_lease_id x = l_lease_id y" for x y
    using that ids lease_invD(1) [OF inv] by (metis distinct_map inj_on_def)
  have "l_mode x = Shared" if xy: "x \<in> set ls" "y \<in> set ls" "l_resource_id x = l_resource_id y" "x \<noteq> y" for x y
  proof -
    obtain a where a: "a \<in> set (k_leases s)" "l_resource_id x = l_resource_id a" "l_mode x = l_mode a"
      "l_lease_id x = l_lease_id a" using elem [OF xy(1)] by blast
    obtain b where b: "b \<in> set (k_leases s)" "l_resource_id y = l_resource_id b"
      "l_lease_id y = l_lease_id b" using elem [OF xy(2)] by blast
    have "a \<noteq> b" using eq [OF xy(1,2)] xy(4) a(4) b(3) by auto
    then show ?thesis using lease_invD(3) [OF inv a(1) b(1)] a b xy(3) by simp
  qed
  moreover have "k_fences s (l_resource_id x) = Some (l_fencing_token x)" if "x \<in> set ls" for x
    using elem [OF that] lease_invD(4) [OF inv] by auto
  ultimately show ?thesis
    using lease_invD(1,2,5) [OF inv] ids idset unfolding ls_def [symmetric] lease_inv_def by simp
qed

text \<open>Claims that are free and name each resource once can always be granted.\<close>

definition free_claims :: "kstate \<Rightarrow> lease list \<Rightarrow> claim list \<Rightarrow> bool" where
  "free_claims s active cs \<longleftrightarrow>
     distinct (map cl_resource_id cs) \<and>
     (\<forall>c \<in> set cs. on_resource (cl_resource_id c) active = on_resource (cl_resource_id c) (k_leases s) \<and>
        (\<forall>l \<in> set active. \<not> conflicts c l))"

lemma free_claims_step:
  assumes "free_claims s active (c # cs)" "l_resource_id l = cl_resource_id c"
  shows "free_claims (granted l (drawn s)) active cs"
  using assms by (auto simp: free_claims_def on_resource_def)

lemma free_claim_grantable:
  assumes "free_claims s active (c # cs)" "token_for s active c tok" "uuid_hex (k_uuids s) \<notin> lease_id_set s"
  shows "grantable (drawn s) (new_lease s pid e c tok)"
proof -
  have on: "on_resource (cl_resource_id c) active = on_resource (cl_resource_id c) (k_leases s)"
    and nc: "\<forall>l \<in> set active. \<not> conflicts c l"
    using assms(1) by (auto simp: free_claims_def)
  have "l_mode x = Shared \<and> cl_mode c = Shared" if "x \<in> set (on_resource (cl_resource_id c) active)" for x
    using nc that by (cases "l_mode x"; cases "cl_mode c") (auto simp: conflicts_def on_resource_def)
  moreover from this have "cl_mode c = Shared \<or> on_resource (cl_resource_id c) active = []"
    by (cases "on_resource (cl_resource_id c) active") auto
  ultimately show ?thesis
    using assms(2,3) unfolding grantable_def on [symmetric]
    by (auto simp: on [symmetric] token_for_def next_fence_def split: if_splits)
qed

lemma token_exists:
  assumes inv: "lease_inv s" and free: "free_claims s active (c # cs)"
  shows "\<exists>tok. token_for s active c tok"
proof (cases "cl_mode c = Shared \<and> on_resource (cl_resource_id c) active \<noteq> []")
  case True
  have on: "on_resource (cl_resource_id c) active = on_resource (cl_resource_id c) (k_leases s)"
    using free by (simp add: free_claims_def)
  have each: "k_fences s (cl_resource_id c) = Some (l_fencing_token l)"
    if "l \<in> set (on_resource (cl_resource_id c) active)" for l
    using that lease_invD(4) [OF inv, of l] unfolding on by (auto simp: on_resource_def)
  obtain x where "x \<in> set (on_resource (cl_resource_id c) active)"
    using True by (cases "on_resource (cl_resource_id c) active") auto
  then have fx: "k_fences s (cl_resource_id c) = Some (l_fencing_token x)" by (rule each)
  then have "l_fencing_token l = l_fencing_token x" if "l \<in> set (on_resource (cl_resource_id c) active)" for l
    using each [OF that] by simp
  moreover have "0 < l_fencing_token x" using fx by (rule lease_invD(5) [OF inv])
  ultimately have "token_for s active c (l_fencing_token x)"
    using True fx by (auto simp: token_for_def)
  then show ?thesis by blast
next
  case False
  then show ?thesis unfolding token_for_def if_not_P [OF False] by blast
qed

lemma grants_exist:
  assumes "lease_inv s" "free_claims s active cs"
  shows "\<exists>ls t. grants pid e active cs ls s t \<and> lease_inv t"
  using assms
proof (induction cs arbitrary: s)
  case Nil
  then show ?case by simp
next
  case (Cons c cs)
  obtain tok where tok: "token_for s active c tok" using token_exists [OF Cons.prems] by blast
  have fresh: "uuid_hex (k_uuids s) \<notin> lease_id_set s" using lease_invD(2) [OF Cons.prems(1)] by simp
  let ?t = "granted (new_lease s pid e c tok) (drawn s)"
  have "lease_inv ?t"
    using free_claim_grantable [OF Cons.prems(2) tok fresh] lease_inv_mono [OF Cons.prems(1), of "drawn s"]
    by (intro lease_inv_granted) auto
  then obtain ls t where "grants pid e active cs ls ?t t \<and> lease_inv t"
    using Cons.IH [OF _ free_claims_step [OF Cons.prems(2)], of "new_lease s pid e c tok"] by auto
  then show ?case using tok fresh by auto
qed

lemma first_duplicate_None:
  "first_duplicate rs seen = None \<longleftrightarrow> distinct rs \<and> set rs \<inter> seen = {}"
  by (induction rs arbitrary: seen) auto

lemma busy_claim_None: "busy_claim active cs = None \<longleftrightarrow> (\<forall>c \<in> set cs. \<forall>l \<in> set active. \<not> conflicts c l)"
  by (auto simp: busy_claim_def find_None_iff)

lemma busy_claim_Some: "busy_claim active cs = Some c \<Longrightarrow> c \<in> set cs \<and> (\<exists>l \<in> set active. conflicts c l)"
  by (auto simp: busy_claim_def find_Some_iff)

definition owner_open :: "kstate \<Rightarrow> string \<Rightarrow> bool" where
  "owner_open s pid \<longleftrightarrow> (\<forall>p. get_process s pid = Some p \<longrightarrow> p_state p \<notin> TERMINAL_PROCESS_STATES)"

text \<open>Everything that can be acquired is acquired, and everything else is refused.\<close>

lemma acquire_tx_granted:
  assumes ok: "journal_ok s" and inv: "lease_inv s" and op: "owner_open s pid"
    and dist: "distinct (map cl_resource_id claims)" and free: "busy_claim (k_leases s) claims = None"
  shows "\<exists>ls t. acquire_tx pid claims ttl s = (Inr (None, ls), t) \<and>
    list_all2 (matches_claim pid (k_now s + ttl)) claims ls \<and> k_leases t = k_leases s @ ls \<and>
    lease_inv t \<and> journal_ok t \<and> (\<forall>w \<in> set (k_waiters t). w_pid w \<noteq> pid) \<and> k_fences t = fold raised ls (k_fences s) \<and>
    k_processes t = k_processes s \<and> k_actions t = k_actions s \<and> k_signals t = k_signals s \<and>
    k_capability_sets t = k_capability_sets s \<and>
    (\<exists>evs. k_journal t = k_journal s @ evs \<and> map content evs = map (\<lambda>l. (pid, ''LEASE_ACQUIRED'', PLease l)) ls)"
proof -
  have "free_claims s (k_leases s) claims"
    using dist free by (auto simp: free_claims_def busy_claim_None)
  then obtain ls u where g: "grants pid (k_now s + ttl) (k_leases s) claims ls s u" "lease_inv u"
    using grants_exist [OF inv] by blast
  note r = grants_result [OF g(1)]
  let ?v = "u\<lparr>k_waiters := filter (\<lambda>w. w_pid w \<noteq> pid) (k_waiters u)\<rparr>"
  have jv: "journal_ok ?v" using ok r by (auto simp: journal_ok_def)
  obtain evs t where e: "emit_tx (map (\<lambda>l. (pid, ''LEASE_ACQUIRED'', PLease l)) ls) ?v = (Inr evs, t)"
      "journal_ok t" "journal_only ?v t" "k_uuids t = k_uuids ?v + length ls"
      "k_journal t = k_journal ?v @ evs" "map content evs = map (\<lambda>l. (pid, ''LEASE_ACQUIRED'', PLease l)) ls"
    using emit_tx_ok [OF jv, of "map (\<lambda>l. (pid, ''LEASE_ACQUIRED'', PLease l)) ls"] by auto
  have nt: "\<not> (case get_process s pid of None \<Rightarrow> False | Some p \<Rightarrow> p_state p \<in> TERMINAL_PROCESS_STATES)"
    using op by (auto simp: owner_open_def split: option.splits)
  have "acquire_tx pid claims ttl s = (Inr (None, ls), t)"
    using acquire_claims_iff [of pid "k_now s + ttl" "k_leases s" claims s ls u] g(1) nt free e(1)
    by (simp add: acquire_tx_def bind_op_def then_op_def clear_waiters_for_pid_def)
  moreover have "lease_inv t"
    using e(4) by (intro lease_inv_mono [OF g(2)]) (simp_all add: journal_only_sel [OF e(3)])
  ultimately show ?thesis
    using r e(2,5,6) grants_fences [OF g(1)] by (auto simp: journal_only_sel [OF e(3)])
qed

lemma clear_waiters_sel:
  "snd (clear_waiters_for_pid pid s) = s\<lparr>k_waiters := filter (\<lambda>w. w_pid w \<noteq> pid) (k_waiters s)\<rparr>"
  by (simp add: clear_waiters_for_pid_def)

lemma add_waiter_sel [simp]:
  "k_leases (add_waiter pid rid s) = k_leases s" "k_fences (add_waiter pid rid s) = k_fences s"
  by (simp_all add: add_waiter_def)

lemma keeps_journal_op:
  assumes "steps journal_only m" shows "keeps k_leases m" "keeps k_fences m"
  using assms by (auto simp: keeps_def steps_def dest: journal_only_sel)

lemma keeps_clear_waiters: "keeps k_leases (clear_waiters_for_pid pid)" "keeps k_fences (clear_waiters_for_pid pid)"
  by (simp_all add: keeps_def clear_waiters_for_pid_def)

lemma atomic_acquire_run:
  assumes "claims \<noteq> []" "distinct (map cl_resource_id claims)"
  shows "atomic_acquire pid claims ttl s =
    (case acquire_tx pid claims ttl s of
       (Inl e, _) \<Rightarrow> (Inl e, s)
     | (Inr (None, ls), u) \<Rightarrow> (Inr ls, u)
     | (Inr (Some c, _), u) \<Rightarrow> refuse_busy pid c u)"
  using assms first_duplicate_None [of "map cl_resource_id claims" "{}"]
  by (simp add: atomic_acquire_def bind_op_def transaction_def
      split: prod.splits sum.splits option.splits)

lemma acquire_tx_busy:
  assumes "acquire_tx pid claims ttl s = (Inr (Some c, ls), u)"
  shows "u = s" "busy_claim (k_leases s) claims = Some c"
  using assms
  by (auto simp: acquire_tx_def bind_op_eq_Inr_iff then_op_eq_Inr_iff split: if_splits option.splits)

lemma keeps_refuse_busy: "keeps k_leases (refuse_busy pid c)" "keeps k_fences (refuse_busy pid c)"
  unfolding refuse_busy_def
  by (intro keeps_rules keeps_modify keeps_clear_waiters keeps_journal_op journal_ops add_waiter_sel)+

text \<open>A refused acquisition leaves no lease behind and moves no fence.\<close>

lemma acquire_refused:
  assumes "atomic_acquire pid claims ttl s = (Inl e, t)"
  shows "k_leases t = k_leases s \<and> k_fences t = k_fences s"
proof (cases "claims \<noteq> [] \<and> distinct (map cl_resource_id claims)")
  case False
  then show ?thesis
    using assms first_duplicate_None [of "map cl_resource_id claims" "{}"]
    by (cases "claims = []") (auto simp: atomic_acquire_def then_op_def bind_op_def
        clear_waiters_for_pid_def split: option.splits)
next
  case True
  note run = atomic_acquire_run [OF True [THEN conjunct1] True [THEN conjunct2], of pid ttl s]
  show ?thesis
  proof (cases "acquire_tx pid claims ttl s")
    case (Pair r u)
    show ?thesis
    proof (cases r)
      case (Inl err)
      then show ?thesis using assms run Pair by simp
    next
      case (Inr x)
      obtain f ls where x: "x = (f, ls)" by (cases x)
      show ?thesis
      proof (cases f)
        case None
        then show ?thesis using assms run Pair Inr x by simp
      next
        case (Some c)
        then have "u = s" using acquire_tx_busy(1) Pair Inr x by blast
        then have "refuse_busy pid c s = (Inl e, t)" using assms run Pair Inr x Some by simp
        then show ?thesis
          using keepsD [OF keeps_refuse_busy(1)] keepsD [OF keeps_refuse_busy(2)] by blast
      qed
    qed
  qed
qed

section \<open>What releases, renewals and reclamations do\<close>

lemma filter_eq_single: "distinct xs \<Longrightarrow> x \<in> set xs \<Longrightarrow> filter (\<lambda>y. y = x) xs = [x]"
  by (induction xs) (auto simp: filter_empty_conv)

lemma delete_loop:
  assumes "distinct (map l_lease_id (k_leases s))" "set rows \<subseteq> set (k_leases s)" "distinct rows"
    and "\<forall>l \<in> set rows. P l"
  shows "fold_op (delete_selected P) rows acc s =
    (Inr (acc @ rows), s\<lparr>k_leases := filter (\<lambda>l. l \<notin> set rows) (k_leases s)\<rparr>)"
  using assms
proof (induction rows arbitrary: acc s)
  case Nil
  then show ?case by simp
next
  case (Cons x rows)
  have x: "x \<in> set (k_leases s)" "P x" using Cons.prems by auto
  have same: "l_lease_id y = l_lease_id x \<longleftrightarrow> y = x" if "y \<in> set (k_leases s)" for y
    using that x Cons.prems(1) by (auto simp: distinct_map inj_on_def)
  have "filter (\<lambda>y. l_lease_id y = l_lease_id x \<and> P y) (k_leases s) = filter (\<lambda>y. y = x) (k_leases s)"
    using x by (intro filter_cong) (auto simp: same)
  moreover have "filter (\<lambda>y. y = x) (k_leases s) = [x]"
    using x Cons.prems(1) by (intro filter_eq_single) (auto simp: distinct_map)
  moreover have "filter (\<lambda>y. \<not> (l_lease_id y = l_lease_id x \<and> P y)) (k_leases s) = filter (\<lambda>y. y \<noteq> x) (k_leases s)"
    using x by (intro filter_cong) (auto simp: same)
  ultimately have one: "delete_selected P x acc s =
      (Inr (acc @ [x]), s\<lparr>k_leases := filter (\<lambda>y. y \<noteq> x) (k_leases s)\<rparr>)"
    by (simp add: delete_selected_def delete_leases_def bind_op_def)
  show ?case
    unfolding fold_op_step [of "delete_selected P", OF one]
    using Cons.prems by (subst Cons.IH) (auto simp: distinct_map_filter intro!: filter_cong)
qed

lemma release_all_result:
  assumes ok: "journal_ok s" and inv: "lease_inv s" and pid: "pid \<noteq> []"
  shows "\<exists>t. release_all_for_pid pid s = (Inr (length (list_leases_for_pid s pid)), t) \<and>
    k_leases t = filter (\<lambda>l. l_owner_pid l \<noteq> pid) (k_leases s) \<and>
    k_waiters t = filter (\<lambda>w. w_pid w \<noteq> pid) (k_waiters s) \<and> k_fences t = k_fences s \<and>
    k_processes t = k_processes s \<and> k_actions t = k_actions s \<and> journal_ok t \<and>
    k_uuids s \<le> k_uuids t \<and> k_signals t = k_signals s \<and> k_capability_sets t = k_capability_sets s \<and>
    (\<exists>evs. k_journal t = k_journal s @ evs \<and> map content evs = map released_event (list_leases_for_pid s pid))"
proof -
  let ?rows = "list_leases_for_pid s pid"
  let ?u = "s\<lparr>k_leases := filter (\<lambda>l. l_owner_pid l \<noteq> pid) (k_leases s),
    k_waiters := filter (\<lambda>w. w_pid w \<noteq> pid) (k_waiters s)\<rparr>"
  have "fold_op (delete_selected (\<lambda>x. l_owner_pid x = pid)) ?rows [] s =
      (Inr ([] @ ?rows), s\<lparr>k_leases := filter (\<lambda>l. l \<notin> set ?rows) (k_leases s)\<rparr>)"
    using lease_invD(1) [OF inv]
    by (intro delete_loop) (auto simp: list_leases_for_pid_def distinct_map intro: distinct_filter)
  moreover have "filter (\<lambda>l. l \<notin> set ?rows) (k_leases s) = filter (\<lambda>l. l_owner_pid l \<noteq> pid) (k_leases s)"
    by (intro filter_cong) (auto simp: list_leases_for_pid_def)
  ultimately have loop: "fold_op (delete_selected (\<lambda>x. l_owner_pid x = pid)) ?rows [] s =
      (Inr ?rows, s\<lparr>k_leases := filter (\<lambda>l. l_owner_pid l \<noteq> pid) (k_leases s)\<rparr>)" by simp
  have "journal_ok ?u" using ok by (simp add: journal_ok_def)
  from emit_tx_ok [OF this, of "map released_event ?rows"] obtain evs t where
    e: "emit_tx (map released_event ?rows) ?u = (Inr evs, t)" "journal_ok t" "journal_only ?u t"
      "k_uuids t = k_uuids ?u + length ?rows" "k_journal t = k_journal ?u @ evs"
      "map content evs = map released_event ?rows" by auto
  then have "release_all_for_pid pid s = (Inr (length ?rows), t)"
    using loop pid
    by (simp add: release_all_for_pid_def bind_op_def then_op_def transaction_def clear_waiters_for_pid_def)
  then show ?thesis using e by (auto simp: journal_only_sel [OF e(3)])
qed

lemma reclaim_result:
  assumes ok: "journal_ok s" and inv: "lease_inv s"
  shows "\<exists>t. reclaim_expired cutoff s = (Inr (length (filter (\<lambda>l. l_expires_at l \<le> cutoff) (k_leases s))), t) \<and>
    k_leases t = filter (\<lambda>l. cutoff < l_expires_at l) (k_leases s) \<and>
    k_waiters t = k_waiters s \<and> k_fences t = k_fences s \<and> journal_ok t \<and> k_uuids s \<le> k_uuids t \<and>
    k_processes t = k_processes s \<and> k_actions t = k_actions s \<and> k_signals t = k_signals s \<and>
    k_capability_sets t = k_capability_sets s \<and>
    (\<exists>evs. k_journal t = k_journal s @ evs \<and> map content evs = concat (map (\<lambda>l. [released_event l, expired_event l])
       (filter (\<lambda>l. l_expires_at l \<le> cutoff) (k_leases s))))"
proof -
  let ?rows = "filter (\<lambda>l. l_expires_at l \<le> cutoff) (k_leases s)"
  let ?u = "s\<lparr>k_leases := filter (\<lambda>l. cutoff < l_expires_at l) (k_leases s)\<rparr>"
  have "fold_op (delete_selected (\<lambda>x. l_expires_at x \<le> cutoff)) ?rows [] s =
      (Inr ([] @ ?rows), s\<lparr>k_leases := filter (\<lambda>l. l \<notin> set ?rows) (k_leases s)\<rparr>)"
    using lease_invD(1) [OF inv]
    by (intro delete_loop) (auto simp: distinct_map intro: distinct_filter)
  moreover have "filter (\<lambda>l. l \<notin> set ?rows) (k_leases s) = filter (\<lambda>l. cutoff < l_expires_at l) (k_leases s)"
    by (intro filter_cong) auto
  ultimately have loop: "fold_op (delete_selected (\<lambda>x. l_expires_at x \<le> cutoff)) ?rows [] s = (Inr ?rows, ?u)"
    by simp
  have "journal_ok ?u" using ok by (simp add: journal_ok_def)
  from emit_tx_ok [OF this, of "concat (map (\<lambda>l. [released_event l, expired_event l]) ?rows)"]
  obtain evs t where e: "emit_tx (concat (map (\<lambda>l. [released_event l, expired_event l]) ?rows)) ?u = (Inr evs, t)"
      "journal_ok t" "journal_only ?u t" "k_journal t = k_journal ?u @ evs" "k_uuids ?u \<le> k_uuids t"
      "map content evs = concat (map (\<lambda>l. [released_event l, expired_event l]) ?rows)" by auto
  then have "reclaim_expired cutoff s = (Inr (length ?rows), t)"
    using loop by (simp add: reclaim_expired_def bind_op_def then_op_def transaction_def)
  then show ?thesis using e by (auto simp: journal_only_sel [OF e(3)])
qed

lemma get_lease_mem: "distinct (map l_lease_id (k_leases s)) \<Longrightarrow> l \<in> set (k_leases s) \<Longrightarrow> get_lease s (l_lease_id l) = Some l"
  unfolding get_lease_def by (rule tbl_get_distinct)

lemma get_leaseD: "get_lease s lid = Some l \<Longrightarrow> l \<in> set (k_leases s) \<and> l_lease_id l = lid"
  unfolding get_lease_def by (blast dest: tbl_get_key tbl_get_mem)

lemma renew_refused:
  assumes inv: "lease_inv s" and dead: "\<And>l. get_lease s lid = Some l \<Longrightarrow> l_expires_at l \<le> k_now s"
  shows "renew lid ttl s = (Inr None, s)"
proof -
  have "\<not> (l_lease_id l = lid \<and> k_now s < l_expires_at l)" if "l \<in> set (k_leases s)" for l
    using get_lease_mem [OF lease_invD(1) [OF inv] that] dead [of l] by auto
  note no_hit = this
  then have "filter (\<lambda>l. l_lease_id l = lid \<and> k_now s < l_expires_at l) (k_leases s) = []"
    by (simp add: filter_empty_conv)
  moreover have "tbl_update (\<lambda>l. l_lease_id l = lid \<and> k_now s < l_expires_at l)
      (\<lambda>l. l\<lparr>l_expires_at := k_now s + ttl\<rparr>) (k_leases s) = k_leases s"
    unfolding tbl_update_def by (rule map_idI) (use no_hit in auto)
  ultimately show ?thesis
    by (simp add: renew_def transaction_def bind_op_def extend_lease_def Let_def)
qed

lemma renew_granted:
  assumes ok: "journal_ok s" and inv: "lease_inv s" and l: "get_lease s lid = Some l"
    and live: "k_now s < l_expires_at l"
  shows "\<exists>t. renew lid ttl s = (Inr (Some (l\<lparr>l_expires_at := k_now s + ttl\<rparr>)), t) \<and>
    (\<forall>i. get_lease t i = (if i = lid then Some (l\<lparr>l_expires_at := k_now s + ttl\<rparr>) else get_lease s i)) \<and>
    k_fences t = k_fences s \<and> journal_ok t"
proof -
  let ?hit = "\<lambda>x. l_lease_id x = lid \<and> k_now s < l_expires_at x"
  let ?u = "s\<lparr>k_leases := tbl_update ?hit (\<lambda>x. x\<lparr>l_expires_at := k_now s + ttl\<rparr>) (k_leases s)\<rparr>"
  have mem: "l \<in> set (k_leases s)" "l_lease_id l = lid" using get_leaseD [OF l] by auto
  then have hits: "filter ?hit (k_leases s) \<noteq> []" using live by (auto simp: filter_empty_conv)
  have get: "get_lease ?u i = (if i = lid then Some (l\<lparr>l_expires_at := k_now s + ttl\<rparr>) else get_lease s i)" for i
  proof -
    have "get_lease ?u i = map_option (\<lambda>r. if ?hit r then r\<lparr>l_expires_at := k_now s + ttl\<rparr> else r) (get_lease s i)"
      unfolding get_lease_def by (simp add: tbl_get_update)
    then show ?thesis
      using l live mem by (cases "get_lease s i") (auto dest: get_leaseD)
  qed
  have "journal_ok ?u" using ok by (simp add: journal_ok_def)
  from emit_tx_ok [OF this] obtain evs t where
    e: "emit_tx [(l_owner_pid l, ''LEASE_RENEWED'', PDict
             [(''lease_id'', VStr lid), (''resource_id'', VStr (l_resource_id l)),
              (''owner_pid'', VStr (l_owner_pid l)), (''new_expiry'', VInt (k_now s + ttl)),
              (''fencing_token'', VInt (l_fencing_token l))])] ?u = (Inr evs, t)"
      "journal_ok t" "journal_only ?u t" by blast
  have "renew lid ttl s = (Inr (Some (l\<lparr>l_expires_at := k_now s + ttl\<rparr>)), t)"
    using hits get [of lid] e(1)
    by (simp add: renew_def transaction_def bind_op_def then_op_def extend_lease_def Let_def)
  moreover have "get_lease t i = get_lease ?u i" for i
    by (simp add: get_lease_def journal_only_sel [OF e(3)])
  ultimately show ?thesis using e(2) get by (auto simp: journal_only_sel [OF e(3)])
qed

section \<open>The wait-for relation\<close>

lemma targets_wait_edge:
  "set (targets (wait_edge pid ow wg) a) =
     set (targets wg a) \<union> (if a = pid \<and> ow \<noteq> pid then {ow} else {})"
  by (auto simp: wait_edge_def targets_def map_of_dict_set split: option.splits)

lemma targets_wait_edges:
  "set (targets (fold (wait_edge pid) ows wg) a) =
     set (targets wg a) \<union> (if a = pid then set ows - {pid} else {})"
  by (induction ows arbitrary: wg) (auto simp: targets_wait_edge)

lemma waits_on_graph:
  "waits_on (wait_for_graph s) a b \<longleftrightarrow> a \<noteq> b \<and>
     (\<exists>w \<in> set (k_waiters s). \<exists>l \<in> set (k_leases s).
        w_pid w = a \<and> l_owner_pid l = b \<and> w_resource_id w = l_resource_id l)"
proof -
  have all: "set (targets (fold (\<lambda>w. fold (wait_edge (w_pid w)) (owners s (w_resource_id w))) ws wg) a) =
      set (targets wg a) \<union> {b. a \<noteq> b \<and> (\<exists>w \<in> set ws. w_pid w = a \<and> b \<in> set (owners s (w_resource_id w)))}"
    for ws wg
    by (induction ws arbitrary: wg) (auto simp: targets_wait_edges)
  have none: "targets [] a = []" by (simp add: targets_def)
  show ?thesis
    unfolding waits_on_def wait_for_graph_def all none by (auto simp: owners_def; metis)
qed

end
