(* ===== verification/Actions.thy ===== *)
theory Actions
  imports Leases
begin

text \<open>
  The action table, \<open>agent_os/services/action_service.py\<close>: submission, admission, dispatch, the
  single fenced retry, the fenced commit, the terminal transitions and the replay handler.
\<close>

section \<open>Rows\<close>

definition merge_acb :: "acb \<Rightarrow> acb \<Rightarrow> acb" where
  "merge_acb old new = old\<lparr>a_state := a_state new, a_resource_claims := a_resource_claims new,
     a_lease_ids := a_lease_ids new, a_fencing_tokens := a_fencing_tokens new,
     a_retry_count := a_retry_count new, a_result := a_result new, a_error := a_error new,
     a_finished_at := a_finished_at new\<rparr>"

definition acb_row :: "acb \<Rightarrow> acb" where
  "acb_row a = a\<lparr>a_result := null_if_empty (a_result a), a_error := null_if_empty (a_error a)\<rparr>"

definition upsert_action :: "acb \<Rightarrow> kstate \<Rightarrow> kstate" where
  "upsert_action a s = s\<lparr>k_actions := tbl_upsert a_action_id merge_acb (acb_row a) (k_actions s)\<rparr>"

definition get_action :: "kstate \<Rightarrow> string \<Rightarrow> acb option" where
  "get_action s aid = tbl_get a_action_id (k_actions s) aid"

definition list_by_pid :: "string \<Rightarrow> kstate \<Rightarrow> acb list" where
  "list_by_pid pid s = sort_key a_submitted_at (filter (\<lambda>a. a_pid a = pid) (k_actions s))"

definition list_running :: "kstate \<Rightarrow> acb list" where
  "list_running s = filter (\<lambda>a. a_state a = ARunning) (k_actions s)"

definition list_non_terminal :: "kstate \<Rightarrow> acb list" where
  "list_non_terminal s =
     filter (\<lambda>a. a_state a \<notin> {ACommitted, AFailed, ACancelled, ATimedOut, AUncertain}) (k_actions s)"

definition list_incomplete :: "kstate \<Rightarrow> acb list" where
  "list_incomplete s =
     filter (\<lambda>a. a_state a \<in> {ASubmitted, AAdmitted, ARunning}) (k_actions s)"

text \<open>
  Reading the classification columns of a row: a malformed value becomes the strictest class,
  and a malformed or missing retry count an exhausted budget.
\<close>

definition side_effect_column :: "val \<Rightarrow> side_effect_class" where
  "side_effect_column v =
     (case find (\<lambda>c. VStr (side_effect_value c) = v) [PURE, IDEMPOTENT, NON_REVERSIBLE, UNKNOWN] of
        Some c \<Rightarrow> c | None \<Rightarrow> UNKNOWN)"

definition recovery_policy_column :: "val \<Rightarrow> recovery_policy" where
  "recovery_policy_column v =
     (case find (\<lambda>c. VStr (recovery_policy_value c) = v) [RETRY, INSPECT, UNCERTAIN, DEAD_LETTER] of
        Some c \<Rightarrow> c | None \<Rightarrow> UNCERTAIN)"

text \<open>\<open>int(value)\<close> on a column value; on text, Python's decimal literal with optional sign, single underscores between digits and surrounding white space (ASCII).\<close>

definition is_digit :: "char \<Rightarrow> bool" where
  "is_digit c \<longleftrightarrow> CHR ''0'' \<le> c \<and> c \<le> CHR ''9''"

definition is_space :: "char \<Rightarrow> bool" where
  "is_space c \<longleftrightarrow> c = CHR '' '' \<or> (CHR 0x09 \<le> c \<and> c \<le> CHR 0x0D) \<or> (CHR 0x1C \<le> c \<and> c \<le> CHR 0x1F)"

fun int_digits :: "int \<Rightarrow> string \<Rightarrow> int option" where
  "int_digits acc [] = Some acc"
| "int_digits acc (c # cs) =
     (if c = CHR ''_'' then
        (if cs \<noteq> [] \<and> is_digit (hd cs) then int_digits acc cs else None)
      else if is_digit c then int_digits (10 * acc + of_char c - 48) cs else None)"

definition int_literal :: "string \<Rightarrow> int option" where
  "int_literal t =
     (let u = rev (dropWhile is_space (rev (dropWhile is_space t)));
          nat_part = (\<lambda>cs. if cs \<noteq> [] \<and> is_digit (hd cs) then int_digits 0 cs else None)
      in case u of
           [] \<Rightarrow> None
         | c # cs \<Rightarrow>
             if c = CHR ''-'' then map_option uminus (nat_part cs)
             else if c = CHR ''+'' then nat_part cs
             else nat_part u)"

definition py_int :: "val \<Rightarrow> int option" where
  "py_int v = (case v of VInt i \<Rightarrow> Some i | VBool b \<Rightarrow> Some (if b then 1 else 0) | VStr t \<Rightarrow> int_literal t | _ \<Rightarrow> None)"

definition retry_count_column :: "val \<Rightarrow> int" where
  "retry_count_column v = (case py_int v of Some i \<Rightarrow> if i < 0 then 1 else i | None \<Rightarrow> 1)"

section \<open>Submission and the simple transitions\<close>

definition submit ::
    "string \<Rightarrow> string \<Rightarrow> string \<Rightarrow> pydict option \<Rightarrow> side_effect_class \<Rightarrow> recovery_policy \<Rightarrow>
     string option \<Rightarrow> int option \<Rightarrow> string option \<Rightarrow> claim list \<Rightarrow> acb kop" where
  "submit pid device_type oper arguments sec rp idem timeout action_id claims =
     bind_op (case action_id of None \<Rightarrow> uuid4 | Some i \<Rightarrow> if i = [] then uuid4 else ret i) (\<lambda>aid.
     bind_op (gets k_now) (\<lambda>now.
     let a = \<lparr>a_action_id = aid, a_pid = pid, a_device_type = device_type, a_operation = oper,
              a_arguments = or_empty arguments, a_state = ASubmitted, a_resource_claims = claims,
              a_lease_ids = [], a_fencing_tokens = [], a_idempotency_key = idem,
              a_side_effect_class = sec, a_recovery_policy = rp, a_retry_count = 0,
              a_timeout_seconds = timeout, a_result = None, a_error = None,
              a_submitted_at = now, a_finished_at = None\<rparr>
     in then_op (emit pid ''ACTION_SUBMITTED'' (PAcb a))
          (then_op (modify (upsert_action a)) (ret a))))"

definition with_action :: "string \<Rightarrow> (acb \<Rightarrow> 'a kop) \<Rightarrow> 'a kop" where
  "with_action aid f = bind_op (gets (\<lambda>s. get_action s aid)) (\<lambda>r. case r of
     None \<Rightarrow> raise (ValueError (''Action not found: '' @ aid))
   | Some a \<Rightarrow> f a)"

text \<open>
  \<open>apply_action_transition\<close>, the changes of the operation, the event, the row.
\<close>

definition move_action ::
    "acb \<Rightarrow> action_state \<Rightarrow> (acb \<Rightarrow> acb) \<Rightarrow> string \<Rightarrow> pydict \<Rightarrow> event kop" where
  "move_action a target changes ty pl =
     (case apply_action_transition a target of
        Inl e \<Rightarrow> raise e
      | Inr (a', _) \<Rightarrow>
          bind_op (emit (a_pid a) ty (PDict pl)) (\<lambda>ev.
          then_op (modify (upsert_action (changes a'))) (ret ev)))"

definition admit :: "string \<Rightarrow> event kop" where
  "admit aid = with_action aid (\<lambda>a. move_action a AAdmitted id ''ACTION_ADMITTED''
     [(''action_id'', VStr aid), (''state'', VStr ''admitted'')])"

definition reject :: "string \<Rightarrow> string \<Rightarrow> event kop" where
  "reject aid reason = with_action aid (\<lambda>a.
     move_action a AFailed (\<lambda>b. b\<lparr>a_error := Some [(''reason'', VStr reason)]\<rparr>) ''ACTION_REJECTED''
       [(''action_id'', VStr aid), (''reason'', VStr reason)])"

definition tokens_val :: "(string \<times> int) list \<Rightarrow> val" where
  "tokens_val ts = VDict (map (\<lambda>(r, t). (r, VInt t)) ts)"

definition mark_intent_durable :: "string \<Rightarrow> string list \<Rightarrow> (string \<times> int) list option \<Rightarrow> event kop" where
  "mark_intent_durable aid lease_ids fencing_tokens = with_action aid (\<lambda>a.
     let a1 = a\<lparr>a_lease_ids := lease_ids\<rparr>;
         a2 = (case fencing_tokens of None \<Rightarrow> a1 | Some ts \<Rightarrow> a1\<lparr>a_fencing_tokens := ts\<rparr>)
     in bind_op (emit (a_pid a) ''ACTION_INTENT_DURABLE'' (PDict
            [(''action_id'', VStr aid), (''lease_ids'', VList (map VStr lease_ids)),
             (''fencing_tokens'', tokens_val (a_fencing_tokens a2))])) (\<lambda>ev.
        then_op (modify (upsert_action a2)) (ret ev)))"

definition dispatch_action :: "string \<Rightarrow> event kop" where
  "dispatch_action aid = with_action aid (\<lambda>a.
     move_action a ARunning id ''ACTION_RUNNING'' [(''action_id'', VStr aid)])"

definition commit :: "string \<Rightarrow> pydict option \<Rightarrow> event kop" where
  "commit aid result = with_action aid (\<lambda>a. bind_op (gets k_now) (\<lambda>now.
     move_action a ACommitted
       (\<lambda>b. b\<lparr>a_result := Some (or_empty result), a_finished_at := Some now\<rparr>) ''ACTION_COMMITTED''
       [(''action_id'', VStr aid), (''result'', VDict (or_empty result))]))"

definition fail :: "string \<Rightarrow> pydict option \<Rightarrow> event kop" where
  "fail aid error = with_action aid (\<lambda>a. bind_op (gets k_now) (\<lambda>now.
     move_action a AFailed
       (\<lambda>b. b\<lparr>a_error := Some (or_empty error), a_finished_at := Some now\<rparr>) ''ACTION_FAILED''
       [(''action_id'', VStr aid), (''error'', VDict (or_empty error))]))"

definition mark_timed_out :: "string \<Rightarrow> event kop" where
  "mark_timed_out aid = with_action aid (\<lambda>a. bind_op (gets k_now) (\<lambda>now.
     move_action a ATimedOut
       (\<lambda>b. b\<lparr>a_error := Some [(''reason'', VStr ''timeout'')], a_finished_at := Some now\<rparr>)
       ''ACTION_TIMED_OUT'' [(''action_id'', VStr aid)]))"

text \<open>\<open>detail or {"reason": "uncertain"}\<close>.\<close>

definition uncertain_detail :: "pydict option \<Rightarrow> pydict" where
  "uncertain_detail d =
     (case null_if_empty d of None \<Rightarrow> [(''reason'', VStr ''uncertain'')] | Some x \<Rightarrow> x)"

definition mark_uncertain :: "string \<Rightarrow> pydict option \<Rightarrow> event kop" where
  "mark_uncertain aid detail = with_action aid (\<lambda>a. bind_op (gets k_now) (\<lambda>now.
     move_action a AUncertain
       (\<lambda>b. b\<lparr>a_error := Some (uncertain_detail detail), a_finished_at := Some now\<rparr>)
       ''ACTION_UNCERTAIN'' [(''action_id'', VStr aid), (''detail'', VDict (or_empty detail))]))"

definition cancel :: "string \<Rightarrow> event kop" where
  "cancel aid = with_action aid (\<lambda>a. bind_op (gets k_now) (\<lambda>now.
     move_action a ACancelled (\<lambda>b. b\<lparr>a_finished_at := Some now\<rparr>)
       ''ACTION_CANCELLED'' [(''action_id'', VStr aid)]))"

section \<open>Fencing\<close>

fun fenced_leases :: "kstate \<Rightarrow> acb \<Rightarrow> time \<Rightarrow> string list \<Rightarrow> string + (string \<times> lease_mode) list" where
  "fenced_leases s a now [] = Inr []"
| "fenced_leases s a now (lid # lids) =
     (case get_lease s lid of
        None \<Rightarrow> Inl ''lease_missing''
      | Some l \<Rightarrow>
          if l_owner_pid l \<noteq> a_pid a then Inl ''lease_owner_mismatch''
          else if l_expires_at l \<le> now then Inl ''lease_expired''
          else if l_fencing_token l \<le> 0
                  \<or> map_of (a_fencing_tokens a) (l_resource_id l) \<noteq> Some (l_fencing_token l)
          then Inl ''lease_fencing_token_mismatch''
          else if k_fences s (l_resource_id l) \<noteq> Some (l_fencing_token l)
          then Inl ''resource_fencing_token_superseded''
          else (case fenced_leases s a now lids of
                  Inl e \<Rightarrow> Inl e
                | Inr ls \<Rightarrow> Inr ((l_resource_id l, l_mode l) # ls)))"

definition validate_fencing_contract_tx :: "kstate \<Rightarrow> acb \<Rightarrow> time \<Rightarrow> string option" where
  "validate_fencing_contract_tx s a now =
     (let claims = a_resource_claims a; lease_ids = a_lease_ids a; tokens = a_fencing_tokens a
      in if claims = [] then
           (if lease_ids \<noteq> [] then Some ''unexpected_leases''
            else if tokens \<noteq> [] then Some ''unexpected_fencing_tokens'' else None)
         else if length lease_ids \<noteq> length claims \<or> length (remdups lease_ids) \<noteq> length lease_ids
         then Some ''lease_count_mismatch''
         else if fst ` set tokens \<noteq> cl_resource_id ` set claims
         then Some ''fencing_token_count_mismatch''
         else case fenced_leases s a now lease_ids of
           Inl e \<Rightarrow> Some e
         | Inr actual \<Rightarrow>
             if sort actual \<noteq> sort (map (\<lambda>c. (cl_resource_id c, cl_mode c)) claims)
             then Some ''lease_claim_mismatch'' else None)"

definition not_running :: "acb \<Rightarrow> string" where
  "not_running a = ''action_not_running:'' @ action_state_value (a_state a)"

definition retry_guard :: "acb \<Rightarrow> string option" where
  "retry_guard a =
     (if a_state a \<noteq> ARunning then Some (not_running a)
      else if a_side_effect_class a \<noteq> PURE \<or> a_recovery_policy a \<noteq> RETRY
      then Some ''retry_not_permitted''
      else None)"

definition at_time :: "time option \<Rightarrow> kstate \<Rightarrow> time" where
  "at_time now s = (case now of None \<Rightarrow> k_now s | Some t \<Rightarrow> t)"

definition reserve_retry_if_fenced :: "string \<Rightarrow> time option \<Rightarrow> (bool \<times> string option) kop" where
  "reserve_retry_if_fenced aid now = bind_op (gets (at_time now)) (\<lambda>ts. transaction
     (bind_op (gets (\<lambda>s. get_action s aid)) (\<lambda>row. case row of
        None \<Rightarrow> ret (False, Some ''action_missing'')
      | Some a \<Rightarrow>
          (case retry_guard a of
             Some e \<Rightarrow> ret (False, Some e)
           | None \<Rightarrow>
               if 1 \<le> a_retry_count a then ret (False, Some ''retry_budget_exhausted'')
               else bind_op (gets (\<lambda>s. validate_fencing_contract_tx s a ts)) (\<lambda>fence_error.
                 case fence_error of
                   Some e \<Rightarrow> ret (False, Some e)
                 | None \<Rightarrow>
                     let b = a\<lparr>a_retry_count := a_retry_count a + 1\<rparr>
                     in then_op (emit_tx_at ts (a_pid a) ''ACTION_RETRY_RESERVED'' (PDict
                          [(''action_id'', VStr aid), (''retry_count'', VInt (a_retry_count b)),
                           (''fencing_tokens'', tokens_val (a_fencing_tokens a))]))
                        (then_op (modify (upsert_action b)) (ret (True, None))))))))"

definition validate_reserved_retry_if_fenced :: "string \<Rightarrow> time option \<Rightarrow> kstate \<Rightarrow> bool \<times> string option" where
  "validate_reserved_retry_if_fenced aid now s =
     (case get_action s aid of
        None \<Rightarrow> (False, Some ''action_missing'')
      | Some a \<Rightarrow>
          (case retry_guard a of
             Some e \<Rightarrow> (False, Some e)
           | None \<Rightarrow>
               if a_retry_count a \<noteq> 1 then (False, Some ''retry_not_reserved'')
               else (case validate_fencing_contract_tx s a (at_time now s) of
                       Some e \<Rightarrow> (False, Some e)
                     | None \<Rightarrow> (True, None))))"

text \<open>The transition, the event and the row inside an open transaction, at a given time.\<close>

definition finish_tx :: "acb \<Rightarrow> action_state \<Rightarrow> time \<Rightarrow> (acb \<Rightarrow> acb) \<Rightarrow> string \<Rightarrow> pydict \<Rightarrow> unit kop" where
  "finish_tx a target ts changes ty pl =
     (case apply_action_transition a target of
        Inl e \<Rightarrow> raise e
      | Inr (a', _) \<Rightarrow>
          then_op (emit_tx_at ts (a_pid a) ty (PDict pl))
            (modify (upsert_action ((changes a')\<lparr>a_finished_at := Some ts\<rparr>))))"

definition commit_if_fenced :: "string \<Rightarrow> pydict option \<Rightarrow> time option \<Rightarrow> (bool \<times> string option) kop" where
  "commit_if_fenced aid result now = bind_op (gets (at_time now)) (\<lambda>ts. transaction
     (bind_op (gets (\<lambda>s. get_action s aid)) (\<lambda>row. case row of
        None \<Rightarrow> ret (False, Some ''action_missing'')
      | Some a \<Rightarrow>
          if a_state a \<noteq> ARunning then ret (False, Some (not_running a))
          else bind_op (gets (\<lambda>s. validate_fencing_contract_tx s a ts)) (\<lambda>fence_error.
            case fence_error of
              Some e \<Rightarrow> ret (False, Some e)
            | None \<Rightarrow>
                then_op (finish_tx a ACommitted ts (\<lambda>b. b\<lparr>a_result := Some (or_empty result)\<rparr>)
                  ''ACTION_COMMITTED'' [(''action_id'', VStr aid), (''result'', VDict (or_empty result)),
                     (''fencing_tokens'', tokens_val (a_fencing_tokens a))])
                (ret (True, None))))))"

definition fail_if_running :: "string \<Rightarrow> pydict option \<Rightarrow> bool kop" where
  "fail_if_running aid error = transaction
     (bind_op (gets (\<lambda>s. get_action s aid)) (\<lambda>row. case row of
        None \<Rightarrow> ret False
      | Some a \<Rightarrow>
          if a_state a \<noteq> ARunning then ret False
          else bind_op (gets k_now) (\<lambda>ts.
            then_op (finish_tx a AFailed ts (\<lambda>b. b\<lparr>a_error := Some (or_empty error)\<rparr>)
              ''ACTION_FAILED'' [(''action_id'', VStr aid), (''error'', VDict (or_empty error))])
            (ret True))))"

definition mark_uncertain_if_running :: "string \<Rightarrow> pydict option \<Rightarrow> bool kop" where
  "mark_uncertain_if_running aid detail = transaction
     (bind_op (gets (\<lambda>s. get_action s aid)) (\<lambda>row. case row of
        None \<Rightarrow> ret False
      | Some a \<Rightarrow>
          if a_state a \<noteq> ARunning then ret False
          else bind_op (gets k_now) (\<lambda>ts.
            then_op (finish_tx a AUncertain ts (\<lambda>b. b\<lparr>a_error := Some (uncertain_detail detail)\<rparr>)
              ''ACTION_UNCERTAIN'' [(''action_id'', VStr aid), (''detail'', VDict (uncertain_detail detail))])
            (ret True))))"

section \<open>Replay\<close>

definition action_event_state :: "string \<Rightarrow> action_state option" where
  "action_event_state = map_of
     [(''ACTION_ADMITTED'', AAdmitted), (''ACTION_RUNNING'', ARunning),
      (''ACTION_COMMITTED'', ACommitted), (''ACTION_FAILED'', AFailed),
      (''ACTION_REJECTED'', AFailed), (''ACTION_TIMED_OUT'', ATimedOut),
      (''ACTION_UNCERTAIN'', AUncertain), (''ACTION_CANCELLED'', ACancelled)]"

definition action_events :: "string list" where
  "action_events =
     [''ACTION_ADMITTED'', ''ACTION_INTENT_DURABLE'', ''ACTION_RUNNING'', ''ACTION_RETRY_RESERVED'',
      ''ACTION_COMMITTED'', ''ACTION_FAILED'', ''ACTION_TIMED_OUT'', ''ACTION_UNCERTAIN'',
      ''ACTION_CANCELLED'', ''ACTION_REJECTED'']"

definition val_strs :: "val \<Rightarrow> string list" where
  "val_strs v = (case v of VList vs \<Rightarrow> map (\<lambda>x. case x of VStr t \<Rightarrow> t | _ \<Rightarrow> []) vs | _ \<Rightarrow> [])"

definition val_tokens :: "val \<Rightarrow> (string \<times> int) list" where
  "val_tokens v = (case v of VDict d \<Rightarrow> map (\<lambda>(r, x). (r, case x of VInt t \<Rightarrow> t | _ \<Rightarrow> 0)) d | _ \<Rightarrow> [])"

text \<open>
  \<open>payload.get("error") or payload.get("detail") or {"reason": ...}\<close>.
\<close>

definition replay_error :: "event \<Rightarrow> pydict" where
  "replay_error ev =
     (case payload_get ev ''error'' of
        VDict (x # d) \<Rightarrow> x # d
      | _ \<Rightarrow>
          (case payload_get ev ''detail'' of
             VDict (x # d) \<Rightarrow> x # d
           | _ \<Rightarrow> [(''reason'', case payload_get ev ''reason'' of VNone \<Rightarrow> VStr ''action_failed'' | v \<Rightarrow> v)]))"

definition replay_action :: "event \<Rightarrow> acb \<Rightarrow> acb" where
  "replay_action ev a =
     (let ty = ev_event_type ev;
          a1 = (case action_event_state ty of None \<Rightarrow> a | Some st \<Rightarrow> a\<lparr>a_state := st\<rparr>);
          a2 = (if ty = ''ACTION_INTENT_DURABLE''
                then a1\<lparr>a_lease_ids := val_strs (payload_get ev ''lease_ids''),
                        a_fencing_tokens := val_tokens (payload_get ev ''fencing_tokens'')\<rparr> else a1);
          a3 = (if ty = ''ACTION_RETRY_RESERVED''
                then a2\<lparr>a_retry_count := max (max (a_retry_count a2)
                       (case payload_get ev ''retry_count'' of VInt i \<Rightarrow> i | _ \<Rightarrow> 1)) 1\<rparr> else a2);
          a4 = (if ty = ''ACTION_COMMITTED''
                then a3\<lparr>a_result := (case payload_get ev ''result'' of VDict d \<Rightarrow> Some d | _ \<Rightarrow> Some []),
                        a_finished_at := Some (ev_created_at ev)\<rparr> else a3)
      in if ty \<in> {''ACTION_FAILED'', ''ACTION_REJECTED'', ''ACTION_TIMED_OUT'', ''ACTION_UNCERTAIN''}
         then a4\<lparr>a_error := Some (replay_error ev), a_finished_at := Some (ev_created_at ev)\<rparr>
         else a4)"

definition action_handle_event :: "event \<Rightarrow> unit kop" where
  "action_handle_event ev =
     (if ev_event_type ev = ''ACTION_SUBMITTED'' then
        (case ev_payload ev of
           PAcb a \<Rightarrow> modify (upsert_action a)
         | PAcbLegacy a \<Rightarrow> modify (upsert_action (a\<lparr>a_retry_count := 1\<rparr>))
         | _ \<Rightarrow> raise (OtherError ''ValidationError'' ''ActionControlBlock''))
      else if ev_event_type ev \<in> set action_events then
        (case payload_get ev ''action_id'' of
           VStr aid \<Rightarrow>
             bind_op (gets (\<lambda>s. get_action s aid)) (\<lambda>r. case r of
               None \<Rightarrow> ret ()
             | Some a \<Rightarrow> modify (upsert_action (replay_action ev a)))
         | _ \<Rightarrow> ret ())
      else ret ())"

section \<open>The action table\<close>

interpretation at: keyed_store a_action_id merge_acb
  by unfold_locales (simp add: merge_acb_def)

lemma merge_acb_sel [simp]:
  "a_action_id (merge_acb old new) = a_action_id old" "a_pid (merge_acb old new) = a_pid old"
  "a_state (merge_acb old new) = a_state new" "a_retry_count (merge_acb old new) = a_retry_count new"
  "a_side_effect_class (merge_acb old new) = a_side_effect_class old"
  "a_recovery_policy (merge_acb old new) = a_recovery_policy old"
  "a_operation (merge_acb old new) = a_operation old" "a_arguments (merge_acb old new) = a_arguments old"
  "a_device_type (merge_acb old new) = a_device_type old"
  by (simp_all add: merge_acb_def)

lemma acb_row_sel [simp]:
  "a_action_id (acb_row a) = a_action_id a" "a_pid (acb_row a) = a_pid a"
  "a_state (acb_row a) = a_state a" "a_retry_count (acb_row a) = a_retry_count a"
  "a_side_effect_class (acb_row a) = a_side_effect_class a"
  "a_recovery_policy (acb_row a) = a_recovery_policy a" "a_lease_ids (acb_row a) = a_lease_ids a"
  "a_fencing_tokens (acb_row a) = a_fencing_tokens a"
  "a_resource_claims (acb_row a) = a_resource_claims a"
  "a_result (acb_row a) = null_if_empty (a_result a)" "a_error (acb_row a) = null_if_empty (a_error a)"
  "a_finished_at (acb_row a) = a_finished_at a"
  by (simp_all add: acb_row_def)

lemma get_action_id: "get_action s aid = Some a \<Longrightarrow> a_action_id a = aid"
  unfolding get_action_def by (rule tbl_get_key)

lemma get_upsert_action:
  "get_action (upsert_action a s) aid =
     (if aid = a_action_id a then Some (case get_action s aid of
        None \<Rightarrow> acb_row a | Some old \<Rightarrow> merge_acb old (acb_row a))
      else get_action s aid)"
  by (simp add: get_action_def upsert_action_def at.get_put)

lemma upsert_action_sel [simp]:
  "k_journal (upsert_action a s) = k_journal s" "k_next_offset (upsert_action a s) = k_next_offset s"
  "k_processes (upsert_action a s) = k_processes s" "k_leases (upsert_action a s) = k_leases s"
  "k_fences (upsert_action a s) = k_fences s" "k_waiters (upsert_action a s) = k_waiters s"
  "k_signals (upsert_action a s) = k_signals s"
  "k_capability_sets (upsert_action a s) = k_capability_sets s"
  "k_program_states (upsert_action a s) = k_program_states s"
  "k_checkpoints (upsert_action a s) = k_checkpoints s" "k_now (upsert_action a s) = k_now s"
  "k_logical (upsert_action a s) = k_logical s" "k_uuids (upsert_action a s) = k_uuids s"
  by (simp_all add: upsert_action_def)

text \<open>Fencing looks at the leases and at the fences, and at nothing else of the state.\<close>

lemma fenced_leases_cong:
  "k_leases t = k_leases s \<Longrightarrow> k_fences t = k_fences s \<Longrightarrow> fenced_leases t a now lids = fenced_leases s a now lids"
  by (induction lids) (simp_all add: get_lease_def split: option.split)

lemma validate_fencing_cong:
  "k_leases t = k_leases s \<Longrightarrow> k_fences t = k_fences s \<Longrightarrow>
     validate_fencing_contract_tx t a now = validate_fencing_contract_tx s a now"
  by (simp add: validate_fencing_contract_tx_def Let_def fenced_leases_cong [of t s])

end
