(* ===== verification/Steps.thy ===== *)
theory Steps
  imports Signals Capabilities Actions
begin

text \<open>
  The abstract kernel: what a single write to the database may do, with the guard it is made
  under. Every operation of the services is a sequence of such steps (\<open>kreach\<close>), so a safety
  property shown for each kind of step holds of whole operations, whatever their interleaving
  with other operations at the points where the kernel waits.
\<close>

section \<open>Journal steps\<close>

definition journal_step :: "kstate \<Rightarrow> kstate \<Rightarrow> bool" where
  "journal_step s t \<longleftrightarrow> journal_only s t \<and> (\<exists>evs. k_journal t = k_journal s @ evs) \<and>
     k_uuids s \<le> k_uuids t \<and> (journal_ok s \<longrightarrow> journal_ok t)"

definition journal_grows :: "kstate \<Rightarrow> kstate \<Rightarrow> bool" where
  "journal_grows s t \<longleftrightarrow> journal_only s t \<and> (\<exists>evs. k_journal t = k_journal s @ evs) \<and> k_uuids s \<le> k_uuids t"

interpretation jg: op_preorder journal_grows
proof unfold_locales
  fix s t u
  show "journal_grows s s" by (auto simp: journal_grows_def jo.R_refl)
  assume "journal_grows s t" "journal_grows t u"
  then show "journal_grows s u"
    unfolding journal_grows_def using jo.R_trans [of s t u] by auto
qed

lemma jg_uuid4: "steps journal_grows uuid4"
  by (auto simp: steps_def uuid4_def journal_grows_def)

lemma jg_append_one: "steps journal_grows (append_one ev)"
  by (auto simp: steps_def append_one_def Let_def journal_grows_def jo.R_refl split: option.splits)

lemma jg_mk_event: "steps journal_grows (mk_event pid ty pl)" "steps journal_grows (mk_event_at ts pid ty pl)"
  unfolding mk_event_def mk_event_at_def by (intro jg.steps_rules jg_uuid4)+

lemma jg_mk_events: "steps journal_grows (mk_events es)"
  by (induction es rule: mk_events.induct) (auto intro: jg.steps_rules jg_mk_event)

lemma jg_append: "steps journal_grows (append_events_tx evs)" "steps journal_grows (append_event ev)"
  unfolding append_event_def append_events_atomically_def append_events_tx_def
  by (auto intro!: jg.steps_rules jg_append_one)

lemma jg_emit: "steps journal_grows (emit pid ty pl)" "steps journal_grows (emit_tx es)"
  "steps journal_grows (emit_tx_at ts pid ty pl)"
  unfolding emit_def emit_tx_def emit_tx_at_def
  by (intro jg.steps_rules jg_mk_event jg_mk_events jg_append)+

lemma journal_stepI: "journal_grows s t \<Longrightarrow> (journal_ok s \<Longrightarrow> journal_ok t) \<Longrightarrow> journal_step s t"
  by (simp add: journal_step_def journal_grows_def)

lemma js_emit: "steps journal_step (emit pid ty pl)"
  using jg_emit(1) [of pid ty pl] emit_ok [of _ pid ty pl] journaled_ok
  by (auto simp: steps_def intro!: journal_stepI)

lemma js_emit_tx: "steps journal_step (emit_tx es)"
proof (rule stepsI)
  fix s
  show "journal_step s (snd (emit_tx es s))"
    using jg_emit(2) [of es] emit_tx_ok [of s es] by (auto simp: steps_def intro!: journal_stepI)
qed

lemma js_emit_tx_at: "steps journal_step (emit_tx_at ts pid ty pl)"
  using jg_emit(3) [of ts pid ty pl] emit_tx_at_ok [of _ ts pid ty pl] journaled_ok
  by (auto simp: steps_def intro!: journal_stepI)

lemma js_uuid4: "steps journal_step uuid4"
  using jg_uuid4 journal_ok_uuid by (auto simp: steps_def uuid4_def intro!: journal_stepI)

lemma js_mk_event: "steps journal_step (mk_event pid ty pl)"
  using jg_mk_event(1) [of pid ty pl] journal_ok_uuid
  by (auto simp: steps_def mk_event_def mk_event_at_def bind_op_def uuid4_def intro!: journal_stepI)

lemma journal_step_sel:
  assumes "journal_step s t"
  shows "k_processes t = k_processes s" "k_program_states t = k_program_states s"
    "k_actions t = k_actions s" "k_leases t = k_leases s" "k_fences t = k_fences s"
    "k_waiters t = k_waiters s" "k_signals t = k_signals s"
    "k_capability_sets t = k_capability_sets s" "k_checkpoints t = k_checkpoints s"
    "k_now t = k_now s" "k_uuids s \<le> k_uuids t"
  using assms by (auto simp: journal_step_def dest: journal_only_sel)

section \<open>Kernel steps\<close>

text \<open>An identifier that was drawn, or that no draw will ever produce.\<close>

definition used :: "kstate \<Rightarrow> string \<Rightarrow> bool" where
  "used s i \<longleftrightarrow> (\<forall>n \<ge> k_uuids s. uuid_hex n \<noteq> i)"

inductive kstep :: "kstate \<Rightarrow> kstate \<Rightarrow> bool" where
  step_journal: "journal_step s t \<Longrightarrow> kstep s t"
| step_time: "k_now s \<le> n \<Longrightarrow> kstep s (s\<lparr>k_now := n\<rparr>)"
| step_logical: "kstep s (s\<lparr>k_logical := n\<rparr>)"
| process_new: "p_pid p \<notin> p_pid ` set (k_processes s) \<Longrightarrow> used s (p_pid p) \<Longrightarrow>
    p_state p = CREATED \<Longrightarrow> p_wait_condition p = None \<Longrightarrow> kstep s (upsert_process p s)"
| process_move: "get_process s pid = Some p \<Longrightarrow>
    apply_process_transition p target wait = Inr (p', reason) \<Longrightarrow> kstep s (upsert_process p' s)"
| process_meta: "get_process s pid = Some p \<Longrightarrow> p_pid q = pid \<Longrightarrow> p_state q = p_state p \<Longrightarrow>
    p_wait_condition q = p_wait_condition p \<Longrightarrow> kstep s (upsert_process q s)"
| program_state: "kstep s (save_program_state pid st s)"
| action_new: "a_action_id a \<notin> a_action_id ` set (k_actions s) \<Longrightarrow> used s (a_action_id a) \<Longrightarrow>
    a_state a = ASubmitted \<Longrightarrow> a_retry_count a = 0 \<Longrightarrow> kstep s (upsert_action a s)"
| action_move: "get_action s aid = Some a \<Longrightarrow> apply_action_transition a target = Inr (a', reason) \<Longrightarrow>
    target \<noteq> ACommitted \<Longrightarrow>
    kstep s (upsert_action (a'\<lparr>a_error := err, a_finished_at := fin\<rparr>) s)"
| action_commit: "get_action s aid = Some a \<Longrightarrow> a_state a = ARunning \<Longrightarrow>
    validate_fencing_contract_tx s a (k_now s) = None \<Longrightarrow>
    kstep s (upsert_action (a\<lparr>a_state := ACommitted, a_result := res, a_finished_at := fin\<rparr>) s)"
| action_intent: "get_action s aid = Some a \<Longrightarrow> a_state a = AAdmitted \<Longrightarrow>
    kstep s (upsert_action (a\<lparr>a_lease_ids := lids, a_fencing_tokens := ts\<rparr>) s)"
| action_retry: "get_action s aid = Some a \<Longrightarrow> retry_guard a = None \<Longrightarrow> a_retry_count a < 1 \<Longrightarrow>
    validate_fencing_contract_tx s a (k_now s) = None \<Longrightarrow>
    kstep s (upsert_action (a\<lparr>a_retry_count := a_retry_count a + 1\<rparr>) s)"
| lease_grant: "grantable s l \<Longrightarrow> used s (l_lease_id l) \<Longrightarrow> owner_open s (l_owner_pid l) \<Longrightarrow>
    kstep s (granted l s)"
| lease_delete: "kstep s (s\<lparr>k_leases := filter P (k_leases s)\<rparr>)"
| lease_renew: "kstep s (s\<lparr>k_leases := tbl_update (\<lambda>l. l_lease_id l = lid \<and> k_now s < l_expires_at l)
    (\<lambda>l. l\<lparr>l_expires_at := e\<rparr>) (k_leases s)\<rparr>)"
| waiters: "kstep s (s\<lparr>k_waiters := ws\<rparr>)"
| signal_new: "sg_signal_id g \<notin> sg_signal_id ` set (k_signals s) \<Longrightarrow> used s (sg_signal_id g) \<Longrightarrow>
    \<not> sg_consumed g \<Longrightarrow> kstep s (upsert_signal g s)"
| signal_consume: "kstep s (set_consumed i s)"
| capabilities: "upsert_capability_set cs s = (Inr (), t) \<Longrightarrow> kstep s t"
| checkpoint: "kstep s (s\<lparr>k_checkpoints := cks\<rparr>)"

section \<open>Identifiers\<close>

text \<open>Keys are unique in every table, and no key is still to be drawn.\<close>

definition keys_ok :: "kstate \<Rightarrow> string list \<Rightarrow> bool" where
  "keys_ok s ks \<longleftrightarrow> distinct ks \<and> (\<forall>i \<in> set ks. used s i)"

definition ids_ok :: "kstate \<Rightarrow> bool" where
  "ids_ok s \<longleftrightarrow>
     keys_ok s (map p_pid (k_processes s)) \<and> keys_ok s (map a_action_id (k_actions s)) \<and>
     keys_ok s (map l_lease_id (k_leases s)) \<and> keys_ok s (map sg_signal_id (k_signals s))"

lemma used_mono: "used s i \<Longrightarrow> k_uuids s \<le> k_uuids t \<Longrightarrow> used t i"
  by (simp add: used_def)

lemma used_drawn: "n < k_uuids s \<Longrightarrow> used s (uuid_hex n)"
  by (simp add: used_def)

lemma keys_ok_mono: "keys_ok s ks \<Longrightarrow> k_uuids s \<le> k_uuids t \<Longrightarrow> keys_ok t ks"
  by (auto simp: keys_ok_def intro: used_mono)

lemma keys_ok_snoc: "keys_ok s ks \<Longrightarrow> i \<notin> set ks \<Longrightarrow> used s i \<Longrightarrow> keys_ok s (ks @ [i])"
  by (simp add: keys_ok_def)

lemma keys_ok_filter: "keys_ok s (map f xs) \<Longrightarrow> keys_ok s (map f (filter P xs))"
  by (auto simp: keys_ok_def distinct_map_filter)

lemma keys_ok_upsert:
  assumes "keys_ok s (map key t)" "key r \<in> set (map key t) \<or> used s (key r)"
    and "\<And>x y. key x = key y \<Longrightarrow> key (merge x y) = key y"
  shows "keys_ok s (map key (tbl_upsert key merge r t))"
proof -
  have "map key (tbl_upsert key merge r t) = (if key r \<in> key ` set t then map key t else map key t @ [key r])"
    by (rule map_key_upsert) (rule assms(3))
  then show ?thesis using assms(1,2) by (auto intro: keys_ok_snoc)
qed

lemma keys_ok_fresh: "keys_ok s ks \<Longrightarrow> uuid_hex (k_uuids s) \<notin> set ks"
  by (auto simp: keys_ok_def used_def)

lemma ids_ok_same:
  assumes "ids_ok s" "k_uuids s \<le> k_uuids t" "k_processes t = k_processes s" "k_actions t = k_actions s"
    "k_leases t = k_leases s" "k_signals t = k_signals s"
  shows "ids_ok t"
  using assms by (auto simp: ids_ok_def intro: keys_ok_mono)

lemma ids_ok_process:
  assumes "ids_ok s" "p_pid p \<in> p_pid ` set (k_processes s) \<or> used s (p_pid p)"
  shows "ids_ok (upsert_process p s)"
proof -
  have "keys_ok s (map p_pid (tbl_upsert p_pid merge_pcb (pcb_row p) (k_processes s)))"
    using assms by (intro keys_ok_upsert) (auto simp: ids_ok_def)
  then have "keys_ok s (map p_pid (k_processes (upsert_process p s)))"
    by (simp add: upsert_process_def)
  then show ?thesis
    using assms(1) by (auto simp: ids_ok_def intro: keys_ok_mono)
qed

lemma ids_ok_action:
  assumes "ids_ok s" "a_action_id a \<in> a_action_id ` set (k_actions s) \<or> used s (a_action_id a)"
  shows "ids_ok (upsert_action a s)"
proof -
  have "keys_ok s (map a_action_id (tbl_upsert a_action_id merge_acb (acb_row a) (k_actions s)))"
    using assms by (intro keys_ok_upsert) (auto simp: ids_ok_def)
  then have "keys_ok s (map a_action_id (k_actions (upsert_action a s)))"
    by (simp add: upsert_action_def)
  then show ?thesis
    using assms(1) by (auto simp: ids_ok_def intro: keys_ok_mono)
qed

lemma get_process_mem:
  "get_process s pid = Some p \<Longrightarrow> p_pid p = pid \<and> p \<in> set (k_processes s) \<and> pid \<in> p_pid ` set (k_processes s)"
  unfolding get_process_def by (blast dest: tbl_get_key tbl_get_mem)

lemma get_action_mem:
  "get_action s aid = Some a \<Longrightarrow> a_action_id a = aid \<and> a \<in> set (k_actions s) \<and> aid \<in> a_action_id ` set (k_actions s)"
  unfolding get_action_def by (blast dest: tbl_get_key tbl_get_mem)

lemma kstep_ids_ok:
  assumes "kstep s t" "ids_ok s"
  shows "ids_ok t"
  using assms
proof (induction rule: kstep.induct)
  case (step_journal s t)
  then show ?case by (auto intro: ids_ok_same dest: journal_step_sel)
next
  case (process_new p s)
  then show ?case by (intro ids_ok_process) auto
next
  case (process_move s pid p target wait p' reason)
  then show ?case
    using apply_process_InrD(2) [OF process_move(2)] get_process_mem [OF process_move(1)]
    by (intro ids_ok_process) auto
next
  case (process_meta s pid p q)
  then show ?case
    using get_process_mem [OF process_meta(1)] by (intro ids_ok_process) auto
next
  case (action_new a s)
  then show ?case by (intro ids_ok_action) auto
next
  case (action_move s aid a target a' reason err fin)
  then show ?case
    using apply_action_InrD(1) [OF action_move(2)] get_action_mem [OF action_move(1)]
    by (intro ids_ok_action) auto
next
  case (action_commit s aid a res fin)
  then show ?case using get_action_mem [OF action_commit(1)] by (intro ids_ok_action) auto
next
  case (action_intent s aid a lids ts)
  then show ?case using get_action_mem [OF action_intent(1)] by (intro ids_ok_action) auto
next
  case (action_retry s aid a)
  then show ?case using get_action_mem [OF action_retry(1)] by (intro ids_ok_action) auto
next
  case (lease_grant s l)
  then have "keys_ok s (map l_lease_id (k_leases s) @ [l_lease_id l])"
    by (intro keys_ok_snoc) (auto simp: ids_ok_def grantable_def)
  then show ?case using lease_grant(4) by (auto simp: ids_ok_def intro: keys_ok_mono)
next
  case (lease_delete s P)
  then show ?case by (auto simp: ids_ok_def intro: keys_ok_mono keys_ok_filter)
next
  case (lease_renew s lid e)
  then show ?case by (auto simp: ids_ok_def map_key_update intro: keys_ok_mono)
next
  case (signal_new g s)
  then have "keys_ok s (map sg_signal_id (k_signals s) @ [sg_signal_id g])"
    by (intro keys_ok_snoc) (auto simp: ids_ok_def)
  then show ?case
    using signal_new
    by (auto simp: ids_ok_def upsert_signal_def tbl_replace_fresh intro: keys_ok_mono)
next
  case (signal_consume s i)
  then show ?case by (auto simp: ids_ok_def set_consumed_def map_key_update intro: keys_ok_mono)
next
  case (capabilities cs s t)
  then show ?case
    by (auto simp: upsert_capability_set_def split: if_splits intro: ids_ok_same)
qed (auto intro: ids_ok_same)

section \<open>Reachability\<close>

definition kreach :: "kstate \<Rightarrow> kstate \<Rightarrow> bool" where
  "kreach s t \<longleftrightarrow> (ids_ok s \<longrightarrow> ids_ok t \<and> kstep\<^sup>*\<^sup>* s t)"

interpretation kr: op_preorder kreach
  by unfold_locales (auto simp: kreach_def)

lemma kreach_step: "kstep s t \<Longrightarrow> kreach s t"
  by (auto simp: kreach_def intro: kstep_ids_ok)

lemma kreach_stepI: "(ids_ok s \<Longrightarrow> kstep s t) \<Longrightarrow> kreach s t"
  by (auto simp: kreach_def intro: kstep_ids_ok)

lemma kreach_journal: "journal_step s t \<Longrightarrow> kreach s t"
  by (intro kreach_step step_journal)

lemma journal_kreach: "steps journal_step m \<Longrightarrow> steps kreach m"
  by (erule steps_mono) (rule kreach_journal)

lemmas kr_journal = js_emit [THEN journal_kreach] js_emit_tx [THEN journal_kreach]
  js_emit_tx_at [THEN journal_kreach] js_uuid4 [THEN journal_kreach] js_mk_event [THEN journal_kreach]

end
