(* ===== verification/Refine.thy ===== *)
theory Refine
  imports Steps
begin

text \<open>
  Every operation of the services is a sequence of abstract kernel steps, whichever way it ends.
\<close>

section \<open>Processes\<close>

text \<open>An event, then a write whose guard the journal does not touch.\<close>

lemma emit_then:
  assumes "\<And>u. journal_step s u \<Longrightarrow> kreach u (f u)"
  shows "kreach s (snd (bind_op (emit pid ty pl) (\<lambda>ev. then_op (modify f) (ret (g ev))) s))"
proof (rule kr.bind_at)
  show "kreach s (snd (emit pid ty pl s))" by (rule kr.at_steps) (rule kr_journal)
  fix x t
  assume "emit pid ty pl s = (Inr x, t)"
  then have "journal_step s t" by (rule stepsD [OF js_emit])
  then show "kreach t (snd (then_op (modify f) (ret (g x)) t))" by (simp add: assms)
qed

lemma get_process_journal: "journal_step s u \<Longrightarrow> get_process u pid = get_process s pid"
  by (simp add: get_process_def journal_step_sel)

lemma get_action_journal: "journal_step s u \<Longrightarrow> get_action u aid = get_action s aid"
  by (simp add: get_action_def journal_step_sel)

lemma kr_transition: "steps kreach (transition pid target wait)"
proof (rule stepsI)
  fix s :: kstate
  show "kreach s (snd (transition pid target wait s))"
  proof (cases "get_process s pid")
    case None
    then show ?thesis by (simp add: transition_def kr.R_refl)
  next
    case (Some p)
    show ?thesis
    proof (cases "apply_process_transition p target wait")
      case (Inl e)
      then show ?thesis using Some by (simp add: transition_def kr.R_refl)
    next
      case (Inr pr)
      obtain p' reason where pr: "pr = (p', reason)" by (cases pr)
      have "kreach u (upsert_process p' u)" if "journal_step s u" for u
        using process_move [of u pid p target wait p' reason] that Some Inr pr
        by (intro kreach_step) (simp add: get_process_journal)
      then show ?thesis using Some Inr pr by (simp add: transition_def emit_then)
    qed
  qed
qed

lemma kr_save_program_state: "steps kreach (modify (save_program_state pid st))"
  by (intro kr.steps_modify kreach_step program_state)

lemma kr_safe_transition: "steps kreach (safe_transition pid target wait)"
  unfolding safe_transition_def Let_def by (intro kr.steps_rules kr_transition kr_journal)

lemma ids_ok_fresh:
  assumes "ids_ok s"
  shows "uuid_hex (k_uuids s) \<notin> p_pid ` set (k_processes s)"
    "uuid_hex (k_uuids s) \<notin> a_action_id ` set (k_actions s)"
    "uuid_hex (k_uuids s) \<notin> lease_id_set s" "uuid_hex (k_uuids s) \<notin> sg_signal_id ` set (k_signals s)"
  using assms keys_ok_fresh by (force simp: ids_ok_def)+

lemma uuid4_run: "uuid4 s = (Inr (uuid_hex (k_uuids s)), drawn s)"
  by (simp add: uuid4_def)

lemma kreach_drawn: "kreach s (drawn s)"
  using kr.at_steps [OF kr_journal(4)] by (simp add: uuid4_run)

lemma kr_spawn: "steps kreach (spawn prog ns cap parent grp pri st)"
proof (rule stepsI)
  fix s :: kstate
  let ?pid = "uuid_hex (k_uuids s)"
  have new: "kreach t (snd (then_op (modify (save_program_state ?pid x))
        (then_op (emit ?pid ''PROCESS_SPAWNED'' (PPcb p))
        (then_op (modify (upsert_process p))
        (then_op (transition ?pid READY None)
        (gets g)))) t))"
    if p: "p_pid p = ?pid" "p_state p = CREATED" "p_wait_condition p = None"
      and t: "k_processes t = k_processes s" "k_uuids s < k_uuids t" and ok: "ids_ok s"
    for t x p and g :: "kstate \<Rightarrow> pcb"
  proof (intro kr.then_at)
    show "kreach t (snd (modify (save_program_state ?pid x) t))"
      by (simp add: kreach_step program_state)
    fix r1 t1 assume "modify (save_program_state ?pid x) t = (Inr r1, t1)"
    then have t1: "t1 = save_program_state ?pid x t" by simp
    show "kreach t1 (snd (emit ?pid ''PROCESS_SPAWNED'' (PPcb p) t1))"
      by (rule kr.at_steps) (rule kr_journal)
    fix r2 t2 assume "emit ?pid ''PROCESS_SPAWNED'' (PPcb p) t1 = (Inr r2, t2)"
    then have j: "journal_step t1 t2" by (rule stepsD [OF js_emit])
    have "k_processes t2 = k_processes s" "k_uuids s < k_uuids t2"
      using journal_step_sel(1,11) [OF j] t by (simp_all add: t1)
    then have "kstep t2 (upsert_process p t2)"
      by (intro process_new) (simp_all add: p used_drawn ids_ok_fresh(1) [OF ok])
    then show "kreach t2 (snd (modify (upsert_process p) t2))" by (simp add: kreach_step)
  qed (auto intro: kr.at_steps kr_transition kr.R_refl)
  show "kreach s (snd (spawn prog ns cap parent grp pri st s))"
  proof (cases "ids_ok s")
    case True
    then show ?thesis
      using kr.R_trans [OF kreach_drawn new] kr.R_trans [OF kreach_drawn kr.R_trans [OF kreach_drawn new]]
      by (auto simp: spawn_def uuid4_run bind_op_def [of uuid4] new_pcb_def Let_def split: option.split)
  next
    case False
    then show ?thesis by (simp add: kreach_def)
  qed
qed

section \<open>Signals\<close>

lemma kr_send_signal: "steps kreach (send_signal target ty source payload)"
proof (rule stepsI)
  fix s :: kstate
  let ?i = "uuid_hex (k_uuids s)"
  have new: "kreach t (snd (then_op (emit src ''SIGNAL_SENT'' pl) (then_op (modify (upsert_signal g)) (ret g)) t))"
    if g: "sg_signal_id g = ?i" "\<not> sg_consumed g"
      and t: "k_signals t = k_signals s" "k_uuids s < k_uuids t" and ok: "ids_ok s" for t src pl g
  proof (intro kr.then_at)
    show "kreach t (snd (emit src ''SIGNAL_SENT'' pl t))" by (rule kr.at_steps) (rule kr_journal)
    fix r u assume "emit src ''SIGNAL_SENT'' pl t = (Inr r, u)"
    then have j: "journal_step t u" by (rule stepsD [OF js_emit])
    have "kstep u (upsert_signal g u)"
      using journal_step_sel(7,11) [OF j] t
      by (intro signal_new) (simp_all add: g used_drawn ids_ok_fresh(4) [OF ok])
    then show "kreach u (snd (modify (upsert_signal g) u))" by (simp add: kreach_step)
  qed (auto intro: kr.at_steps kr.R_refl)
  show "kreach s (snd (send_signal target ty source payload s))"
  proof (cases "ids_ok s")
    case True
    then show ?thesis
      using kr.R_trans [OF kreach_drawn new]
      by (auto simp: send_signal_def uuid4_run bind_op_def [of uuid4] Let_def)
  next
    case False
    then show ?thesis by (simp add: kreach_def)
  qed
qed

lemma kr_mark_consumed: "steps kreach (mark_consumed i)"
  unfolding mark_consumed_def
  by (intro kr.steps_rules kr.steps_modify kr_journal kreach_step signal_consume)

lemma kr_deliver_one: "steps kreach (deliver_one g n)"
  unfolding deliver_one_def
  by (intro kr.steps_rules) (auto split: option.split intro!: kr.steps_rules kr_mark_consumed kr_transition)

lemma kr_deliver: "steps kreach deliver_pending" "steps kreach (deliver_to_pid pid)"
  unfolding deliver_pending_def deliver_to_pid_def by (intro kr.steps_rules kr_deliver_one)+

section \<open>Capabilities\<close>

lemma kr_upsert_capability_set: "steps kreach (upsert_capability_set cs)"
proof (rule stepsI)
  fix s :: kstate
  obtain r t where u: "upsert_capability_set cs s = (r, t)" by (cases "upsert_capability_set cs s")
  show "kreach s (snd (upsert_capability_set cs s))"
  proof (cases r)
    case (Inl e)
    then show ?thesis using u by (auto simp: upsert_capability_set_def kr.R_refl split: if_splits)
  next
    case (Inr x)
    then show ?thesis using u by (simp add: kreach_step capabilities)
  qed
qed

lemma kr_grant: "steps kreach (grant pid cap)"
  unfolding grant_def Let_def
  by (auto intro!: kr.steps_rules kr_journal kr_upsert_capability_set)

lemma kr_create_capability_set: "steps kreach (create_capability_set pid caps)"
  unfolding create_capability_set_def Let_def
  by (intro kr.steps_rules kr_journal kr_upsert_capability_set)

lemma kr_enforce: "steps kreach (enforce pid res oper)"
  unfolding enforce_def by (auto intro!: kr.steps_rules kr_journal)

section \<open>Leases\<close>

lemma kr_waiters:
  "steps kreach (clear_waiters_for_pid pid)" "steps kreach (remove_waiter pid rid)"
  "steps kreach (modify (add_waiter pid rid))"
  by (auto simp: steps_def clear_waiters_for_pid_def remove_waiter_def add_waiter_def kr.R_refl
      intro: kreach_step waiters)

lemma kr_delete_leases: "steps kreach (delete_leases P)"
  by (auto simp: steps_def delete_leases_def intro: kreach_step lease_delete)

lemma kr_release: "steps kreach (release lids)"
  unfolding release_def release_one_def
  by (auto split: option.split intro!: kr.steps_rules kr_delete_leases kr_journal)

lemma kr_delete_selected: "steps kreach (delete_selected P l acc)"
  unfolding delete_selected_def by (auto intro!: kr.steps_rules kr_delete_leases)

lemma kr_release_all: "steps kreach (release_all_for_pid pid)"
  unfolding release_all_for_pid_def
  by (auto intro!: kr.steps_rules kr_delete_selected kr_waiters kr_journal)

lemma kr_reclaim: "steps kreach (reclaim_expired cutoff)"
  unfolding reclaim_expired_def by (intro kr.steps_rules kr_delete_selected kr_journal)

lemma kreach_transaction: "kreach s (snd (m s)) \<Longrightarrow> kreach s (snd (transaction m s))"
  by (rule kr.transaction_at) (metis snd_conv)

lemma kr_renew: "steps kreach (renew lid ttl)"
proof (rule stepsI)
  fix s :: kstate
  have ext: "kreach s (snd (extend_lease lid (k_now s) e s))" for e
    by (simp add: extend_lease_def Let_def kreach_step lease_renew)
  have *: "kreach s (snd (bind_op (extend_lease lid (k_now s) e) f s))"
    if "\<And>n. steps kreach (f n)" for e and f :: "nat \<Rightarrow> lease option kop"
    using that by (intro kr.bind_at ext kr.at_steps)
  show "kreach s (snd (renew lid ttl s))"
    unfolding renew_def Let_def
    by (rule kreach_transaction, simp only: bind_op_run, rule *)
      (auto split: option.split intro!: kr.steps_rules kr_journal)
qed

lemma owner_open_same: "k_processes t = k_processes s \<Longrightarrow> owner_open t pid = owner_open s pid"
  by (simp add: owner_open_def get_process_def)

lemma grants_reach:
  "grants pid e active cs ls s t \<Longrightarrow> free_claims s active cs \<Longrightarrow> owner_open s pid \<Longrightarrow> kreach s t"
proof (induction cs arbitrary: ls s)
  case Nil
  then show ?case by (simp add: kr.R_refl)
next
  case (Cons c cs)
  then obtain tok ls' where tok: "token_for s active c tok" "uuid_hex (k_uuids s) \<notin> lease_id_set s"
    and rest: "grants pid e active cs ls' (granted (new_lease s pid e c tok) (drawn s)) t" by auto
  let ?l = "new_lease s pid e c tok"
  have "kstep (drawn s) (granted ?l (drawn s))"
    using free_claim_grantable [OF Cons.prems(2) tok] Cons.prems(3)
    by (intro lease_grant) (simp_all add: used_drawn owner_open_same [of "drawn s" s])
  moreover have "kreach (granted ?l (drawn s)) t"
    using Cons.prems by (intro Cons.IH [OF rest] free_claims_step)
      (simp_all add: owner_open_same [of "granted ?l (drawn s)" s])
  ultimately show ?case by (blast intro: kr.R_trans kreach_drawn kreach_step)
qed

lemma kr_acquire_tx:
  assumes "distinct (map cl_resource_id claims)" "acquire_tx pid claims ttl s = (Inr x, t)"
  shows "kreach s t"
proof (cases x)
  case (Pair failed ls)
  show ?thesis
  proof (cases failed)
    case (Some c)
    then show ?thesis using acquire_tx_busy(1) assms(2) Pair kr.R_refl by blast
  next
    case None
    have op: "owner_open s pid" and free: "busy_claim (k_leases s) claims = None"
      using assms(2) None Pair
      by (auto simp: acquire_tx_def owner_open_def split: if_splits option.splits)
    obtain u where g: "acquire_claims pid (k_now s + ttl) (k_leases s) claims s = (Inr ls, u)"
      and rest: "then_op (clear_waiters_for_pid pid)
        (then_op (emit_tx (map (\<lambda>l. (pid, ''LEASE_ACQUIRED'', PLease l)) ls)) (ret (None, ls))) u = (Inr x, t)"
      using assms(2) None Pair op free
      by (auto simp: acquire_tx_def owner_open_def bind_op_eq_Inr_iff then_op_eq_Inr_iff
          split: if_splits option.splits)
    have "free_claims s (k_leases s) claims"
      using assms(1) free by (auto simp: free_claims_def busy_claim_None)
    then have "kreach s u" using g op unfolding acquire_claims_iff by (intro grants_reach)
    moreover have "kreach u (snd (then_op (clear_waiters_for_pid pid)
        (then_op (emit_tx (map (\<lambda>l. (pid, ''LEASE_ACQUIRED'', PLease l)) ls)) (ret (None :: claim option, ls))) u))"
      by (rule kr.at_steps) (intro kr.steps_rules kr_waiters kr_journal)
    then have "kreach u t" unfolding rest by simp
    ultimately show ?thesis by (blast intro: kr.R_trans)
  qed
qed

lemma kr_refuse_busy: "steps kreach (refuse_busy pid c)"
  unfolding refuse_busy_def by (intro kr.steps_rules kr_waiters kr_journal)

lemma kr_atomic_acquire: "steps kreach (atomic_acquire pid claims ttl)"
proof (cases "first_duplicate (map cl_resource_id claims) {}")
  case None
  then have "distinct (map cl_resource_id claims)" by (simp add: first_duplicate_None)
  then have "steps kreach (transaction (acquire_tx pid claims ttl))"
    by (intro stepsI kr.transaction_at) (rule kr_acquire_tx)
  then show ?thesis
    unfolding atomic_acquire_def
    by (auto simp: None split: option.split intro!: kr.steps_rules kr_waiters kr_refuse_busy)
next
  case (Some rid)
  then show ?thesis
    unfolding atomic_acquire_def by (auto intro!: kr.steps_rules kr_waiters)
qed

section \<open>Actions\<close>

definition ends :: "(acb \<Rightarrow> acb) \<Rightarrow> bool" where
  "ends changes \<longleftrightarrow> (\<forall>b. \<exists>err fin. changes b = b\<lparr>a_error := err, a_finished_at := fin\<rparr>)"

lemma ends_intros [intro!]:
  "ends id" "ends (\<lambda>b. b\<lparr>a_error := e\<rparr>)" "ends (\<lambda>b. b\<lparr>a_finished_at := f\<rparr>)"
  "ends (\<lambda>b. b\<lparr>a_error := e, a_finished_at := f\<rparr>)"
proof -
  have "b = b\<lparr>a_error := a_error b, a_finished_at := a_finished_at b\<rparr>" for b :: acb by simp
  then show "ends id" unfolding ends_def id_def by blast
  have "b\<lparr>a_error := e\<rparr> = b\<lparr>a_error := e, a_finished_at := a_finished_at b\<rparr>" for b :: acb by simp
  then show "ends (\<lambda>b. b\<lparr>a_error := e\<rparr>)" unfolding ends_def by blast
  have "b\<lparr>a_finished_at := f\<rparr> = b\<lparr>a_error := a_error b, a_finished_at := f\<rparr>" for b :: acb by simp
  then show "ends (\<lambda>b. b\<lparr>a_finished_at := f\<rparr>)" unfolding ends_def by blast
  show "ends (\<lambda>b. b\<lparr>a_error := e, a_finished_at := f\<rparr>)" unfolding ends_def by blast
qed

lemma move_reach:
  assumes "get_action s aid = Some a" "apply_action_transition a target = Inr (a', r)" "target \<noteq> ACommitted"
    "ends changes" "journal_step s u"
  shows "kreach u (upsert_action (changes a') u)"
proof -
  obtain err fin where c: "changes a' = a'\<lparr>a_error := err, a_finished_at := fin\<rparr>"
    using assms(4) unfolding ends_def by blast
  show ?thesis
    unfolding c
    using assms by (intro kreach_step action_move [of u aid a]) (simp_all add: get_action_journal)
qed

lemma kr_move_action:
  assumes "get_action s aid = Some a" "target \<noteq> ACommitted" "ends changes"
  shows "kreach s (snd (move_action a target changes ty pl s))"
proof (cases "apply_action_transition a target")
  case (Inl e)
  then show ?thesis by (simp add: move_action_def kr.R_refl)
next
  case (Inr x)
  then show ?thesis
    using assms by (cases x) (simp add: move_action_def emit_then move_reach)
qed

lemma kr_with_action:
  assumes "\<And>s a. get_action s aid = Some a \<Longrightarrow> kreach s (snd (f a s))"
  shows "steps kreach (with_action aid f)"
  using assms by (auto simp: steps_def with_action_def kr.R_refl split: option.split)

lemma kr_move_now:
  "target \<noteq> ACommitted \<Longrightarrow> ends changes \<Longrightarrow>
     steps kreach (with_action aid (\<lambda>a. move_action a target changes ty pl))"
  by (rule kr_with_action) (rule kr_move_action)

lemma kr_move_timed:
  "target \<noteq> ACommitted \<Longrightarrow> (\<And>now. ends (changes now)) \<Longrightarrow>
     steps kreach (with_action aid (\<lambda>a. bind_op (gets k_now) (\<lambda>now. move_action a target (changes now) ty pl)))"
  by (rule kr_with_action) (simp add: kr_move_action)

lemma kr_action_moves:
  "steps kreach (admit aid)" "steps kreach (reject aid reason)" "steps kreach (dispatch_action aid)"
  "steps kreach (fail aid error)" "steps kreach (mark_timed_out aid)"
  "steps kreach (mark_uncertain aid detail)" "steps kreach (cancel aid)"
  unfolding admit_def reject_def dispatch_action_def fail_def mark_timed_out_def mark_uncertain_def
    cancel_def
  by (intro kr_move_now kr_move_timed ends_intros action_state.distinct)+

lemma kr_submit:
  "steps kreach (submit pid dev oper args sec rp idem timeout None claims)"
proof (rule stepsI)
  fix s :: kstate
  let ?i = "uuid_hex (k_uuids s)"
  have new: "kreach t (snd (then_op (emit pid ''ACTION_SUBMITTED'' pl) (then_op (modify (upsert_action a)) (ret a)) t))"
    if a: "a_action_id a = ?i" "a_state a = ASubmitted" "a_retry_count a = 0"
      and t: "k_actions t = k_actions s" "k_uuids s < k_uuids t" and ok: "ids_ok s" for t pl a
  proof (intro kr.then_at)
    show "kreach t (snd (emit pid ''ACTION_SUBMITTED'' pl t))" by (rule kr.at_steps) (rule kr_journal)
    fix r u assume "emit pid ''ACTION_SUBMITTED'' pl t = (Inr r, u)"
    then have j: "journal_step t u" by (rule stepsD [OF js_emit])
    have "kstep u (upsert_action a u)"
      using journal_step_sel(3,11) [OF j] t
      by (intro action_new) (simp_all add: a used_drawn ids_ok_fresh(2) [OF ok])
    then show "kreach u (snd (modify (upsert_action a) u))" by (simp add: kreach_step)
  qed (auto intro: kr.at_steps kr.R_refl)
  show "kreach s (snd (submit pid dev oper args sec rp idem timeout None claims s))"
  proof (cases "ids_ok s")
    case True
    then show ?thesis
      using kr.R_trans [OF kreach_drawn new]
      by (auto simp: submit_def uuid4_run bind_op_def [of uuid4] Let_def)
  next
    case False
    then show ?thesis by (simp add: kreach_def)
  qed
qed

lemma kr_mark_intent:
  assumes "get_action s aid = Some a" "a_state a = AAdmitted"
  shows "kreach s (snd (mark_intent_durable aid lids ts s))"
proof -
  have some: "kreach u (upsert_action (a\<lparr>a_lease_ids := lids, a_fencing_tokens := tk\<rparr>) u)"
    if "journal_step s u" for u tk
    using assms that by (intro kreach_step action_intent [of u aid]) (simp_all add: get_action_journal)
  have none: "kreach u (upsert_action (a\<lparr>a_lease_ids := lids\<rparr>) u)" if "journal_step s u" for u
    using some [OF that, of "a_fencing_tokens a"] by simp
  show ?thesis
    using assms(1) some none
    by (auto simp: mark_intent_durable_def with_action_def Let_def split: option.split intro!: emit_then)
qed

text \<open>The operations that check the fence at the time of the call.\<close>

lemma kr_finish_tx:
  assumes "get_action s aid = Some a" "target \<noteq> ACommitted" "ends changes"
  shows "kreach s (snd (finish_tx a target ts changes ty pl s))"
proof (cases "apply_action_transition a target")
  case (Inl e)
  then show ?thesis by (simp add: finish_tx_def kr.R_refl)
next
  case (Inr x)
  obtain a' r where x: "x = (a', r)" by (cases x)
  have e: "ends (\<lambda>b. (changes b)\<lparr>a_finished_at := Some ts\<rparr>)"
    unfolding ends_def
  proof
    fix b
    obtain err fin where "changes b = b\<lparr>a_error := err, a_finished_at := fin\<rparr>"
      using assms(3) unfolding ends_def by blast
    then have "(changes b)\<lparr>a_finished_at := Some ts\<rparr> = b\<lparr>a_error := err, a_finished_at := Some ts\<rparr>" by simp
    then show "\<exists>err fin. (changes b)\<lparr>a_finished_at := Some ts\<rparr> = b\<lparr>a_error := err, a_finished_at := fin\<rparr>"
      by blast
  qed
  have "kreach s (snd (then_op (emit_tx_at ts (a_pid a) ty (PDict pl))
      (modify (upsert_action ((changes a')\<lparr>a_finished_at := Some ts\<rparr>))) s))"
  proof (rule kr.then_at)
    show "kreach s (snd (emit_tx_at ts (a_pid a) ty (PDict pl) s))"
      by (rule kr.at_steps) (rule kr_journal)
    fix y t
    assume "emit_tx_at ts (a_pid a) ty (PDict pl) s = (Inr y, t)"
    then have "journal_step s t" by (rule stepsD [OF js_emit_tx_at])
    then show "kreach t (snd (modify (upsert_action ((changes a')\<lparr>a_finished_at := Some ts\<rparr>)) t))"
      using move_reach [OF assms(1) Inr [unfolded x] assms(2) e] by simp
  qed
  then show ?thesis by (simp add: finish_tx_def Inr x)
qed

lemma kr_if_running:
  "steps kreach (fail_if_running aid error)" "steps kreach (mark_uncertain_if_running aid detail)"
proof -
  have "kreach s (snd (then_op (finish_tx a target ts changes ty pl) (ret b) s))"
    if "get_action s aid = Some a" "target \<noteq> ACommitted" "ends changes"
    for s a target ts changes ty pl and b :: bool
    using that by (intro kr.then_at kr_finish_tx) (auto simp: kr.R_refl)
  then show "steps kreach (fail_if_running aid error)" "steps kreach (mark_uncertain_if_running aid detail)"
    unfolding fail_if_running_def mark_uncertain_if_running_def
    by (intro stepsI kreach_transaction; simp add: kr.R_refl ends_intros split: option.split)+
qed

text \<open>
  The two operations that decide under the fence. Their time is the clock's at the call, which is
  how the kernel calls them.
\<close>

lemma kr_journal_then:
  assumes "\<And>u. journal_step s u \<Longrightarrow> kreach u (f u)"
  shows "kreach s (snd (then_op (emit_tx_at ts pid ty pl) (modify f) s))"
    "kreach s (snd (then_op (emit_tx_at ts pid ty pl) (then_op (modify f) (ret x)) s))"
proof -
  have e: "kreach s (snd (emit_tx_at ts pid ty pl s))" by (rule kr.at_steps) (rule kr_journal)
  have j: "journal_step s t" if "emit_tx_at ts pid ty pl s = (Inr y, t)" for y t
    using js_emit_tx_at that by (rule stepsD)
  show "kreach s (snd (then_op (emit_tx_at ts pid ty pl) (modify f) s))"
    using e by (rule kr.then_at) (simp add: assms j)
  show "kreach s (snd (then_op (emit_tx_at ts pid ty pl) (then_op (modify f) (ret x)) s))"
    using e by (rule kr.then_at) (simp add: assms j)
qed

lemma validate_fencing_journal:
  "journal_step s u \<Longrightarrow> validate_fencing_contract_tx u a now = validate_fencing_contract_tx s a now"
  by (rule validate_fencing_cong) (simp_all add: journal_step_sel)

lemma kr_commit_now: "kreach s (snd (commit_if_fenced aid res (Some (k_now s)) s))"
proof -
  have "kreach s (snd (then_op (finish_tx a ACommitted (k_now s) (\<lambda>b. b\<lparr>a_result := Some r\<rparr>) ty pl)
      (ret (True, None :: string option)) s))"
    if a: "get_action s aid = Some a" "a_state a = ARunning"
      "validate_fencing_contract_tx s a (k_now s) = None" for a r ty pl
  proof -
    have tr: "apply_action_transition a ACommitted = Inr (a\<lparr>a_state := ACommitted\<rparr>, ''driver_success'')"
      unfolding apply_action_eq_Inr by (simp add: a(2) ACTION_TRANSITIONS_def)
    have "kreach u (upsert_action (a\<lparr>a_state := ACommitted, a_result := Some r,
        a_finished_at := Some (k_now s)\<rparr>) u)" if "journal_step s u" for u
      using a that by (intro kreach_step action_commit [of u aid])
        (simp_all add: get_action_journal validate_fencing_journal journal_step_sel)
    then have "kreach s (snd (finish_tx a ACommitted (k_now s) (\<lambda>b. b\<lparr>a_result := Some r\<rparr>) ty pl s))"
      by (simp add: finish_tx_def tr kr_journal_then)
    then show ?thesis by (rule kr.then_at) (simp add: kr.R_refl)
  qed
  then show ?thesis
    unfolding commit_if_fenced_def
    by simp (rule kreach_transaction, simp add: at_time_def kr.R_refl split: option.split)
qed

lemma kr_reserve_now: "kreach s (snd (reserve_retry_if_fenced aid (Some (k_now s)) s))"
proof -
  have "kreach s (snd (then_op (emit_tx_at ts pid ty pl)
      (then_op (modify (upsert_action (a\<lparr>a_retry_count := a_retry_count a + 1\<rparr>)))
        (ret (True, None :: string option))) s))"
    if a: "get_action s aid = Some a" "retry_guard a = None" "\<not> 1 \<le> a_retry_count a"
      "validate_fencing_contract_tx s a (k_now s) = None" for a ts pid ty pl
    using a by (intro kr_journal_then kreach_step action_retry [of _ aid])
      (simp_all add: get_action_journal validate_fencing_journal journal_step_sel)
  then show ?thesis
    unfolding reserve_retry_if_fenced_def Let_def
    by simp (rule kreach_transaction, simp add: at_time_def kr.R_refl split: option.split)
qed

lemma kr_commit_then:
  assumes "\<And>x. steps kreach (f x)"
  shows "steps kreach (bind_op (gets k_now) (\<lambda>now. bind_op (commit_if_fenced aid res (Some now)) f))"
  by (rule stepsI) (simp add: kr.bind_at kr_commit_now kr.at_steps assms)

lemma kr_reserve_then:
  assumes "\<And>x. steps kreach (f x)"
  shows "steps kreach (bind_op (gets k_now) (\<lambda>now. bind_op (reserve_retry_if_fenced aid (Some now)) f))"
  by (rule stepsI) (simp add: kr.bind_at kr_reserve_now kr.at_steps assms)

end
