(* ===== verification/Dispatcher.thy ===== *)
theory Dispatcher
  imports Signals Capabilities Actions
begin

text \<open>
  The system calls, \<open>agent_os/kernel/dispatcher.py\<close>: one handler per request type and the
  routing of a request to its handler. Requests are those of \<open>kernel/models.py\<close>.
\<close>

section \<open>Requests\<close>

record submit_fields =
  sr_device_type :: string
  sr_operation :: string
  sr_arguments :: pydict
  sr_resource_claims :: "claim list"
  sr_side_effect_class :: side_effect_class
  sr_recovery_policy :: recovery_policy
  sr_idempotency_key :: "string option"
  sr_timeout_seconds :: "int option"
  sr_fields_set :: "string list"

record spawn_fields =
  sp_program_id :: string
  sp_parent_pid :: "string option"
  sp_capabilities :: "string list"
  sp_namespace_id :: string
  sp_resource_group_id :: string
  sp_initial_state :: pydict

datatype request_body =
    SpawnRequest spawn_fields
  | ProgramStepRequest
  | SubmitActionRequest submit_fields
  | InspectActionRequest string
  | CancelActionRequest string
  | AcquireResourceRequest "claim list"
  | ReleaseResourceRequest "string list"
  | WaitRequest pydict int
  | SignalRequest string string pydict
  | CheckpointRequest
  | RestoreRequest string
  | ExitRequest string "string option"

record kernel_request =
  rq_request_id :: string
  rq_pid :: string
  rq_body :: request_body

section \<open>Handlers\<close>

text \<open>\<open>with suppress(Exception)\<close>, and an optional dictionary in a payload.\<close>

definition suppress_op :: "'a kop \<Rightarrow> unit kop" where
  "suppress_op m = try_op (then_op m (ret ())) (\<lambda>_. ret ())"

definition opt_dict :: "pydict option \<Rightarrow> val" where
  "opt_dict d = (case d of None \<Rightarrow> VNone | Some x \<Rightarrow> VDict x)"

definition opt_str :: "string option \<Rightarrow> val" where
  "opt_str x = (case x of None \<Rightarrow> VNone | Some v \<Rightarrow> VStr v)"

definition spawn_failed :: "string \<Rightarrow> event kop" where
  "spawn_failed pid = emit pid ''SPAWN_FAILED'' (PDict [(''reason'', VStr ''invalid_parent'')])"

text \<open>The part of a spawn after the caller was checked; \<open>caps\<close> is what the child receives.\<close>

definition spawn_child ::
    "spawn_fields \<Rightarrow> string option \<Rightarrow> string \<Rightarrow> string \<Rightarrow> capability list \<Rightarrow> event kop" where
  "spawn_child f parent_pid namespace_id resource_group_id caps =
     bind_op (spawn (sp_program_id f) namespace_id None parent_pid resource_group_id 10
                (Some (sp_initial_state f))) (\<lambda>p.
     bind_op (create_capability_set (p_pid p) caps) (\<lambda>cs.
     then_op (modify (upsert_process (p\<lparr>p_capability_set_id := cs_set_id cs\<rparr>)))
     (emit (p_pid p) ''SPAWN_COMPLETE'' (PDict
        [(''pid'', VStr (p_pid p)), (''program_id'', VStr (p_program_id p))]))))"

definition handle_spawn :: "capability list \<Rightarrow> string \<Rightarrow> spawn_fields \<Rightarrow> event kop" where
  "handle_spawn full pid f =
     (if pid \<noteq> [] then
        bind_op (gets (\<lambda>s. (get_process s pid, get_capability_set s pid))) (\<lambda>(parent, parent_caps).
        case parent of
          None \<Rightarrow> spawn_failed pid
        | Some p \<Rightarrow>
            if sp_parent_pid f \<noteq> None \<and> sp_parent_pid f \<noteq> Some pid then spawn_failed pid
            else spawn_child f (Some pid) (p_namespace_id p) (p_resource_group_id p)
                   (case parent_caps of None \<Rightarrow> [] | Some cs \<Rightarrow> cs_capabilities cs))
      else if sp_parent_pid f \<noteq> None then spawn_failed []
      else spawn_child f None (if sp_namespace_id f = [] then ''default'' else sp_namespace_id f)
             (sp_resource_group_id f) full)"

definition missing_fields :: "submit_fields \<Rightarrow> string list" where
  "missing_fields f = filter (\<lambda>x. x \<notin> set (sr_fields_set f)) [''side_effect_class'', ''recovery_policy'']"

definition fencing_tokens_of :: "lease list \<Rightarrow> (string \<times> int) list" where
  "fencing_tokens_of leases =
     fold (\<lambda>l d. dict_set (l_resource_id l) (l_fencing_token l) d) leases []"

text \<open>Compensation when admission fails half way; its own failures are swallowed.\<close>

definition undo_admission :: "string \<Rightarrow> string \<Rightarrow> string list \<Rightarrow> kerror \<Rightarrow> unit kop" where
  "undo_admission pid aid lease_ids exc =
     then_op (suppress_op (bind_op (gets (\<lambda>s. get_action s aid)) (\<lambda>r. case r of
        None \<Rightarrow> ret ()
      | Some a \<Rightarrow>
          if a_state a = ASubmitted then then_op (reject aid (err_str exc)) (ret ())
          else if a_state a = AAdmitted then
            then_op (fail aid (Some [(''reason'', VStr ''admission_failed''),
                                     (''detail'', VStr (err_type exc))])) (ret ())
          else ret ())))
     (then_op (suppress_op (release lease_ids))
     (suppress_op (clear_waiters_for_pid pid)))"

definition admit_action :: "string \<Rightarrow> submit_fields \<Rightarrow> event kop" where
  "admit_action pid f =
     bind_op (submit pid (sr_device_type f) (sr_operation f) (Some (sr_arguments f))
                (sr_side_effect_class f) (sr_recovery_policy f) (sr_idempotency_key f)
                (sr_timeout_seconds f) None (sr_resource_claims f)) (\<lambda>a.
     bind_op (try_op
        (if sr_resource_claims f = [] then ret []
         else atomic_acquire pid (sr_resource_claims f) DEFAULT_LEASE_TTL)
        (\<lambda>exc. then_op (reject (a_action_id a) (err_str exc))
               (then_op (clear_waiters_for_pid pid) (raise exc)))) (\<lambda>leases.
     let lease_ids = map l_lease_id leases in
     then_op (try_op
        (then_op (admit (a_action_id a))
          (mark_intent_durable (a_action_id a) lease_ids (Some (fencing_tokens_of leases))))
        (\<lambda>exc. then_op (undo_admission pid (a_action_id a) lease_ids exc) (raise exc)))
     (mk_event pid ''ACTION_READY_FOR_DISPATCH'' (PDict
        [(''action_id'', VStr (a_action_id a)), (''device_type'', VStr (sr_device_type f))]))))"

definition handle_submit_action :: "bool \<Rightarrow> string \<Rightarrow> string \<Rightarrow> submit_fields \<Rightarrow> event kop" where
  "handle_submit_action strict rid pid f =
     (if strict \<and> missing_fields f \<noteq> [] then
        emit pid ''ACTION_REJECTED'' (PDict
          [(''reason'', VStr ''effect_contract_required''), (''request_id'', VStr rid),
           (''missing_fields'', VList (map VStr (missing_fields f))),
           (''device_type'', VStr (sr_device_type f)), (''operation'', VStr (sr_operation f))])
      else
        then_op (enforce pid (''device:'' @ sr_device_type f) ''invoke'')
        (then_op (for_op (sr_resource_claims f) (\<lambda>c. enforce pid (cl_resource_id c) ''acquire''))
        (admit_action pid f)))"

definition handle_inspect_action :: "string \<Rightarrow> string \<Rightarrow> event kop" where
  "handle_inspect_action pid aid =
     bind_op (gets (\<lambda>s. get_action s aid)) (\<lambda>r. case r of
       Some a \<Rightarrow>
         if a_pid a = pid then emit pid ''ACTION_INSPECTED'' (PDict
             [(''action_id'', VStr aid), (''state'', VStr (action_state_value (a_state a))),
              (''result'', opt_dict (a_result a)), (''error'', opt_dict (a_error a))])
         else emit pid ''ACTION_INSPECT_FAILED'' (PDict
             [(''action_id'', VStr aid), (''reason'', VStr ''not_found'')])
     | None \<Rightarrow> emit pid ''ACTION_INSPECT_FAILED'' (PDict
             [(''action_id'', VStr aid), (''reason'', VStr ''not_found'')]))"

definition handle_cancel_action :: "string \<Rightarrow> string \<Rightarrow> event kop" where
  "handle_cancel_action pid aid =
     bind_op (gets (\<lambda>s. get_action s aid)) (\<lambda>r. case r of
       Some a \<Rightarrow>
         if a_pid a = pid then
           then_op (cancel aid) (then_op (release (a_lease_ids a))
           (then_op (clear_waiters_for_pid (a_pid a))
           (mk_event pid ''ACTION_CANCELLED'' (PDict [(''action_id'', VStr aid)]))))
         else mk_event pid ''ACTION_CANCEL_FAILED'' (PDict
             [(''action_id'', VStr aid), (''reason'', VStr ''not_found'')])
     | None \<Rightarrow> mk_event pid ''ACTION_CANCEL_FAILED'' (PDict
             [(''action_id'', VStr aid), (''reason'', VStr ''not_found'')]))"

definition handle_acquire :: "string \<Rightarrow> claim list \<Rightarrow> event kop" where
  "handle_acquire pid claims =
     then_op (for_op claims (\<lambda>c. enforce pid (cl_resource_id c) ''acquire''))
     (bind_op (atomic_acquire pid claims DEFAULT_LEASE_TTL) (\<lambda>leases.
      mk_event pid ''RESOURCE_ACQUIRED'' (PDict
        [(''lease_ids'', VList (map (VStr \<circ> l_lease_id) leases)),
         (''resources'', VList (map (VStr \<circ> l_resource_id) leases))])))"

definition handle_release :: "string \<Rightarrow> string list \<Rightarrow> event kop" where
  "handle_release pid lease_ids =
     bind_op (gets (\<lambda>s. map (get_lease s) lease_ids)) (\<lambda>leases.
     if \<exists>x \<in> set leases. (case x of None \<Rightarrow> True | Some l \<Rightarrow> l_owner_pid l \<noteq> pid)
     then mk_event pid ''RESOURCE_RELEASE_FAILED'' (PDict
            [(''count'', VInt 0), (''reason'', VStr ''not_found'')])
     else bind_op (release lease_ids) (\<lambda>count.
          mk_event pid ''RESOURCE_RELEASED'' (PDict
            [(''count'', VInt (int count)), (''lease_ids'', VList (map VStr lease_ids))])))"

definition handle_wait :: "string \<Rightarrow> pydict \<Rightarrow> event kop" where
  "handle_wait pid condition =
     then_op (transition pid BLOCKED (Some condition))
       (mk_event pid ''PROCESS_BLOCKED'' (PDict [(''condition'', VDict condition)]))"

definition handle_signal :: "string \<Rightarrow> string \<Rightarrow> string \<Rightarrow> pydict \<Rightarrow> event kop" where
  "handle_signal pid target_pid signal_type payload =
     then_op (enforce pid (''process:signal/'' @ target_pid) ''send'')
     (bind_op (send_signal target_pid signal_type (Some pid) (Some payload)) (\<lambda>sg.
      mk_event pid ''SIGNAL_SENT'' (PDict
        [(''signal_id'', VStr (sg_signal_id sg)), (''target_pid'', VStr target_pid)])))"

definition insert_checkpoint :: "checkpoint \<Rightarrow> unit kop" where
  "insert_checkpoint c s =
     (if ck_checkpoint_id c \<in> ck_checkpoint_id ` set (k_checkpoints s)
      then (Inl (IntegrityError ''UNIQUE constraint failed: checkpoints.checkpoint_id''), s)
      else (Inr (), s\<lparr>k_checkpoints := k_checkpoints s @ [c]\<rparr>))"

definition handle_checkpoint :: "string \<Rightarrow> event kop" where
  "handle_checkpoint pid =
     bind_op (gets (\<lambda>s. get_process s pid)) (\<lambda>r. case r of
       None \<Rightarrow> raise (ValueError (''Process not found: '' @ pid))
     | Some p \<Rightarrow>
         bind_op (gets next_offset) (\<lambda>off.
         bind_op uuid4 (\<lambda>i. bind_op (gets k_now) (\<lambda>now.
         then_op (insert_checkpoint
           \<lparr>ck_checkpoint_id = i, ck_pid = pid, ck_journal_offset = off,
            ck_process_sequence = p_event_cursor p, ck_pcb_snapshot = p,
            ck_program_state_ref = p_program_state_ref p,
            ck_wait_condition = null_if_empty (p_wait_condition p), ck_mailbox_cursor = 0,
            ck_created_at = now\<rparr>)
         (then_op (modify (upsert_process (p\<lparr>p_checkpoint_ref := Some i\<rparr>)))
         (emit pid ''CHECKPOINT_CREATED'' (PDict
            [(''checkpoint_id'', VStr i), (''journal_offset'', VInt off)])))))))"

definition handle_restore :: "string \<Rightarrow> string \<Rightarrow> event kop" where
  "handle_restore pid cid =
     bind_op (gets (\<lambda>s. find (\<lambda>c. ck_checkpoint_id c = cid \<and> ck_pid c = pid) (k_checkpoints s))) (\<lambda>row.
     case row of
       None \<Rightarrow> emit pid ''CHECKPOINT_RESTORE_FAILED'' (PDict
         [(''checkpoint_id'', VStr cid), (''reason'', VStr ''not_found'')])
     | Some c \<Rightarrow> emit pid ''CHECKPOINT_RESTORED'' (PDict
         [(''checkpoint_id'', VStr cid), (''journal_offset'', VInt (ck_journal_offset c))]))"

definition handle_exit :: "string \<Rightarrow> string \<Rightarrow> string option \<Rightarrow> event kop" where
  "handle_exit pid exit_code result_ref =
     then_op (transition pid EXITED None)
     (then_op (release_all_for_pid pid)
     (then_op (modify (\<lambda>s. case get_process s pid of
                 None \<Rightarrow> s
               | Some p \<Rightarrow> upsert_process (p\<lparr>p_exit_code := Some exit_code, p_result_ref := result_ref\<rparr>) s))
     (emit pid ''PROCESS_EXITED'' (PDict
        [(''exit_code'', VStr exit_code), (''result_ref'', opt_str result_ref)]))))"

text \<open>
  \<open>strict\<close> is \<open>strict_effect_contracts\<close>, \<open>full\<close> the template \<open>DEFAULT_CAPABILITIES["full"]\<close>.
  A \<open>ProgramStepRequest\<close> has no handler.
\<close>

definition dispatch :: "bool \<Rightarrow> capability list \<Rightarrow> kernel_request \<Rightarrow> event kop" where
  "dispatch strict full req =
     (case rq_body req of
        SpawnRequest f \<Rightarrow> handle_spawn full (rq_pid req) f
      | ProgramStepRequest \<Rightarrow> raise (ValueError ''Unknown request type: step'')
      | SubmitActionRequest f \<Rightarrow> handle_submit_action strict (rq_request_id req) (rq_pid req) f
      | InspectActionRequest aid \<Rightarrow> handle_inspect_action (rq_pid req) aid
      | CancelActionRequest aid \<Rightarrow> handle_cancel_action (rq_pid req) aid
      | AcquireResourceRequest claims \<Rightarrow> handle_acquire (rq_pid req) claims
      | ReleaseResourceRequest lids \<Rightarrow> handle_release (rq_pid req) lids
      | WaitRequest c _ \<Rightarrow> handle_wait (rq_pid req) c
      | SignalRequest t ty pl \<Rightarrow> handle_signal (rq_pid req) t ty pl
      | CheckpointRequest \<Rightarrow> handle_checkpoint (rq_pid req)
      | RestoreRequest cid \<Rightarrow> handle_restore (rq_pid req) cid
      | ExitRequest code r \<Rightarrow> handle_exit (rq_pid req) code r)"

end
