(* ===== verification/Kernel.thy ===== *)
theory Kernel
  imports Dispatcher
begin

text \<open>
  The kernel loop, \<open>agent_os/kernel/kernel.py\<close>: a tick reclaims leases, delivers signals,
  recovers running actions, breaks deadlocks, dispatches admitted actions to drivers and runs a
  step of every ready process. Drivers and programs are not part of the kernel: they are
  operations on the kernel state, so that whatever happens while the kernel awaits them
  (cancellation, another worker, the passing of time) is an effect they may have.
\<close>

section \<open>Drivers and programs\<close>

datatype driver_status = DCompleted | DRunning | DFailed | DUnknown

record driver_result =
  dr_status :: driver_status
  dr_output :: pydict
  dr_error :: "pydict option"

record driver =
  drv_dispatch :: "string \<Rightarrow> string \<Rightarrow> pydict \<Rightarrow> driver_result kop"
  drv_inspect :: "string \<Rightarrow> driver_result kop"

text \<open>What a program asks for: a kernel request, or an object that is none (with its type name).\<close>

datatype program_request = KernelRequest kernel_request | ForeignRequest string

record step_result =
  st_new_state :: pydict
  st_request :: "program_request option"
  st_exit_code :: "string option"
  st_result_ref :: "string option"

type_synonym program = "pydict \<Rightarrow> event option \<Rightarrow> step_result kop"

record env =
  e_drivers :: "string \<rightharpoonup> driver"
  e_programs :: "string \<rightharpoonup> program"
  e_strict :: bool
  e_full :: "capability list"

section \<open>Helpers\<close>

definition scheduler_select :: "pcb list \<Rightarrow> pcb list" where
  "scheduler_select ready = sort_key (\<lambda>p. (p_priority p, p_created_at p)) ready"

definition get_last_action_id :: "string \<Rightarrow> kstate \<Rightarrow> string option" where
  "get_last_action_id pid s =
     (let actions = list_by_pid pid s in if actions = [] then None else Some (a_action_id (last actions)))"

definition action_is_running :: "string \<Rightarrow> kstate \<Rightarrow> bool" where
  "action_is_running aid s = (case get_action s aid of Some a \<Rightarrow> a_state a = ARunning | None \<Rightarrow> False)"

definition retry_reservation_is_owned_elsewhere :: "string \<Rightarrow> string option \<Rightarrow> kstate \<Rightarrow> bool" where
  "retry_reservation_is_owned_elsewhere aid err s =
     (if err \<noteq> Some ''retry_budget_exhausted'' then False
      else case get_action s aid of
        None \<Rightarrow> False
      | Some a \<Rightarrow> a_side_effect_class a = PURE \<and> a_recovery_policy a = RETRY \<and> a_retry_count a = 1)"

datatype recovery_mode = MRetry | MInspect | MUncertain

definition unknown_recovery_mode :: "acb \<Rightarrow> recovery_mode" where
  "unknown_recovery_mode a =
     (if a_recovery_policy a = INSPECT then MInspect
      else if a_recovery_policy a = UNCERTAIN \<or> a_recovery_policy a = DEAD_LETTER then MUncertain
      else if a_side_effect_class a = PURE \<and> a_recovery_policy a = RETRY
      then (if a_retry_count a < 1 then MRetry else MInspect)
      else if a_side_effect_class a = IDEMPOTENT then MInspect
      else MUncertain)"

definition recovery_detail :: "acb \<Rightarrow> pydict \<Rightarrow> pydict" where
  "recovery_detail a detail =
     (let r1 = dict_setdefault ''side_effect_class'' (VStr (side_effect_value (a_side_effect_class a))) detail;
          r2 = dict_setdefault ''recovery_policy'' (VStr (recovery_policy_value (a_recovery_policy a))) r1
      in if a_recovery_policy a = DEAD_LETTER
         then dict_setdefault ''recovery_disposition'' (VStr ''dead_letter'') r2 else r2)"

definition kernel_send :: "acb \<Rightarrow> string \<Rightarrow> string \<Rightarrow> pydict \<Rightarrow> unit kop" where
  "kernel_send a signal_type key value =
     then_op (send_signal (a_pid a) signal_type (Some ''kernel'')
       (Some [(''action_id'', VStr (a_action_id a)), (key, VDict value)])) (ret ())"

text \<open>
  The three ways an attempt ends: fail or mark uncertain if the action is still running,
  release its leases, and notify the owner only if this attempt decided; or commit under the
  fence, and fail as stale if the fence rejects it.
\<close>

definition fail_and_release :: "acb \<Rightarrow> pydict \<Rightarrow> pydict \<Rightarrow> unit kop" where
  "fail_and_release a error signal_error =
     bind_op (fail_if_running (a_action_id a) (Some error)) (\<lambda>failed.
     then_op (release (a_lease_ids a))
     (when_op failed (kernel_send a ''ACTION_FAILED'' ''error'' signal_error)))"

definition uncertain_and_release :: "acb \<Rightarrow> pydict \<Rightarrow> unit kop" where
  "uncertain_and_release a detail =
     bind_op (mark_uncertain_if_running (a_action_id a) (Some detail)) (\<lambda>marked.
     then_op (release (a_lease_ids a))
     (when_op marked (kernel_send a ''ACTION_UNCERTAIN'' ''detail'' detail)))"

definition mark_uncertain_and_release :: "acb \<Rightarrow> pydict \<Rightarrow> unit kop" where
  "mark_uncertain_and_release a detail = uncertain_and_release a (recovery_detail a detail)"

definition commit_or_stale ::
    "acb \<Rightarrow> pydict \<Rightarrow> (string option \<Rightarrow> pydict) \<Rightarrow> (string option \<Rightarrow> pydict) \<Rightarrow> unit kop" where
  "commit_or_stale a out stale_error signal_error =
     bind_op (gets k_now) (\<lambda>now.
     bind_op (commit_if_fenced (a_action_id a) (Some out) (Some now)) (\<lambda>(committed, fence_error).
     if \<not> committed then fail_and_release a (stale_error fence_error) (signal_error fence_error)
     else then_op (release (a_lease_ids a)) (kernel_send a ''ACTION_COMPLETED'' ''result'' out)))"

definition stale :: "pydict \<Rightarrow> string option \<Rightarrow> pydict \<Rightarrow> pydict" where
  "stale pre fence_error post =
     (''reason'', VStr ''stale_fenced_completion'') # pre @ (''detail'', opt_str fence_error) # post"

text \<open>\<open>{**(error or {}), "reason": (error or {}).get("reason", "retry_failed")}\<close>.\<close>

definition retry_failed_detail :: "pydict option \<Rightarrow> pydict" where
  "retry_failed_detail error =
     (let e = or_empty error
      in dict_set ''reason'' (case map_of e ''reason'' of None \<Rightarrow> VStr ''retry_failed'' | Some v \<Rightarrow> v) e)"

section \<open>Reconciliation by inspection\<close>

definition inspect_after_unknown :: "acb \<Rightarrow> driver \<Rightarrow> string \<Rightarrow> unit kop" where
  "inspect_after_unknown a drv reason =
     bind_op (gets (action_is_running (a_action_id a))) (\<lambda>running.
     if \<not> running then then_op (release (a_lease_ids a)) (ret ())
     else bind_op (try_op (bind_op (drv_inspect drv (a_action_id a)) (\<lambda>r. ret (Inr r))) (\<lambda>e. ret (Inl e))) (\<lambda>r.
       case r of
         Inl exc \<Rightarrow> mark_uncertain_and_release a
           [(''reason'', VStr ''inspect_failed''), (''source'', VStr reason),
            (''error'', VStr (err_str exc)), (''type'', VStr (err_type exc))]
       | Inr i \<Rightarrow>
           (case dr_status i of
              DCompleted \<Rightarrow>
                commit_or_stale a (dr_output i) (\<lambda>fe. stale [(''source'', VStr reason)] fe [])
                  (\<lambda>fe. stale [(''source'', VStr reason)] fe [])
            | DFailed \<Rightarrow>
                let error = (case null_if_empty (dr_error i) of
                               None \<Rightarrow> [(''reason'', VStr ''inspection_failed'')] | Some e \<Rightarrow> e)
                in fail_and_release a error error
            | DUnknown \<Rightarrow> mark_uncertain_and_release a
                [(''reason'', VStr ''inspection_unknown''), (''source'', VStr reason)]
            | DRunning \<Rightarrow> ret ())))"

section \<open>Dispatching admitted actions\<close>

definition fail_undispatched :: "acb \<Rightarrow> pydict \<Rightarrow> unit kop" where
  "fail_undispatched a error =
     then_op (fail (a_action_id a) (Some error))
     (then_op (release (a_lease_ids a))
     (then_op (clear_waiters_for_pid (a_pid a))
     (kernel_send a ''ACTION_FAILED'' ''error'' error)))"

definition call_driver :: "driver \<Rightarrow> acb \<Rightarrow> (kerror + driver_result) kop" where
  "call_driver drv a =
     try_op (bind_op (drv_dispatch drv (a_action_id a) (a_operation a) (a_arguments a)) (\<lambda>r. ret (Inr r)))
       (\<lambda>e. ret (Inl e))"

text \<open>The one retry of a pure action after its dispatch raised; \<open>current\<close> is the action re-read.\<close>

definition retry_result_after_exception :: "acb \<Rightarrow> acb \<Rightarrow> pydict \<Rightarrow> driver_result \<Rightarrow> unit kop" where
  "retry_result_after_exception a current initial_error r =
     (case dr_status r of
        DCompleted \<Rightarrow>
          let err = (\<lambda>fe. recovery_detail current
                (stale [(''source'', VStr ''dispatch_exception_retry'')] fe
                   [(''initial_error'', VDict initial_error),
                    (''fencing_tokens'', tokens_val (a_fencing_tokens current))]))
          in commit_or_stale a (dr_output r) err err
      | DFailed \<Rightarrow>
          uncertain_and_release a (recovery_detail current
            (dict_set ''initial_error'' (VDict initial_error)
              (dict_set ''source'' (VStr ''dispatch_exception_retry'')
                (retry_failed_detail (dr_error r)))))
      | DUnknown \<Rightarrow>
          uncertain_and_release a (recovery_detail current
            [(''reason'', VStr ''retry_unknown''), (''source'', VStr ''dispatch_exception_retry''),
             (''initial_error'', VDict initial_error)])
      | DRunning \<Rightarrow> ret ())"

definition retry_after_exception :: "driver \<Rightarrow> acb \<Rightarrow> pydict \<Rightarrow> unit kop" where
  "retry_after_exception drv a initial_error =
     bind_op (gets (\<lambda>s. get_action s (a_action_id a))) (\<lambda>row.
     case row of
       None \<Rightarrow> then_op (release (a_lease_ids a)) (ret ())
     | Some current \<Rightarrow>
         if a_state current \<noteq> ARunning then then_op (release (a_lease_ids a)) (ret ())
         else
           bind_op (gets k_now) (\<lambda>now.
           bind_op (reserve_retry_if_fenced (a_action_id current) (Some now)) (\<lambda>(reserved, err).
           if \<not> reserved then
             bind_op (gets (retry_reservation_is_owned_elsewhere (a_action_id current) err)) (\<lambda>owned.
             if owned then ret ()
             else uncertain_and_release a (recovery_detail current
               [(''reason'', VStr ''retry_fencing_contract_invalid''),
                (''source'', VStr ''dispatch_exception''), (''detail'', opt_str err),
                (''initial_error'', VDict initial_error),
                (''fencing_tokens'', tokens_val (a_fencing_tokens current))]))
           else
             bind_op (gets (action_is_running (a_action_id a))) (\<lambda>running.
             if \<not> running then then_op (release (a_lease_ids a)) (ret ())
             else
               bind_op (gets (\<lambda>s. validate_reserved_retry_if_fenced (a_action_id a) (Some (k_now s)) s))
                 (\<lambda>(authorized, verr).
               if \<not> authorized then uncertain_and_release a (recovery_detail current
                 [(''reason'', VStr ''retry_dispatch_contract_invalid''),
                  (''source'', VStr ''dispatch_exception''), (''detail'', opt_str verr),
                  (''initial_error'', VDict initial_error)])
               else
                 bind_op (call_driver drv a) (\<lambda>r. case r of
                   Inl exc \<Rightarrow> uncertain_and_release a (recovery_detail current
                     [(''reason'', VStr ''retry_failed''), (''source'', VStr ''dispatch_exception''),
                      (''error'', VStr (err_str exc)), (''type'', VStr (err_type exc)),
                      (''initial_error'', VDict initial_error)])
                 | Inr dr \<Rightarrow> retry_result_after_exception a current initial_error dr))))))"

definition after_dispatch_exception :: "driver \<Rightarrow> acb \<Rightarrow> kerror \<Rightarrow> unit kop" where
  "after_dispatch_exception drv a exc =
     (let initial_error =
            [(''reason'', VStr ''driver_dispatch_exception''), (''error'', VStr (err_str exc)),
             (''type'', VStr (err_type exc)),
             (''side_effect_class'', VStr (side_effect_value (a_side_effect_class a)))]
      in case unknown_recovery_mode a of
           MRetry \<Rightarrow> retry_after_exception drv a initial_error
         | MInspect \<Rightarrow> inspect_after_unknown a drv ''dispatch_exception''
         | MUncertain \<Rightarrow> mark_uncertain_and_release a initial_error)"

text \<open>
  The reservation of the retry after an \<open>unknown\<close> outcome, and what its result leads to; the
  dispatch loop and the recovery loop share it.
\<close>

definition retry_result_after_unknown :: "acb \<Rightarrow> driver_result \<Rightarrow> unit kop" where
  "retry_result_after_unknown a r =
     (case dr_status r of
        DCompleted \<Rightarrow> commit_or_stale a (dr_output r) (\<lambda>fe. stale [] fe []) (\<lambda>fe. stale [] fe [])
      | DFailed \<Rightarrow> mark_uncertain_and_release a (retry_failed_detail (dr_error r))
      | DUnknown \<Rightarrow> mark_uncertain_and_release a [(''reason'', VStr ''retry_unknown'')]
      | DRunning \<Rightarrow> ret ())"

definition reserved_retry :: "acb \<Rightarrow> unit kop \<Rightarrow> unit kop" where
  "reserved_retry a redispatch =
     bind_op (gets k_now) (\<lambda>now.
     bind_op (reserve_retry_if_fenced (a_action_id a) (Some now)) (\<lambda>(reserved, err).
     if \<not> reserved then
       bind_op (gets (retry_reservation_is_owned_elsewhere (a_action_id a) err)) (\<lambda>owned.
       if owned then ret ()
       else mark_uncertain_and_release a
         [(''reason'', VStr ''retry_reservation_failed''), (''detail'', opt_str err)])
     else
       bind_op (gets (\<lambda>s. validate_reserved_retry_if_fenced (a_action_id a) (Some (k_now s)) s))
         (\<lambda>(authorized, verr).
       if \<not> authorized then mark_uncertain_and_release a
         [(''reason'', VStr ''retry_dispatch_contract_invalid''), (''detail'', opt_str verr)]
       else redispatch)))"

definition retry_failed_exc :: "acb \<Rightarrow> kerror \<Rightarrow> unit kop" where
  "retry_failed_exc a exc = mark_uncertain_and_release a
     [(''reason'', VStr ''retry_failed''), (''error'', VStr (err_str exc))]"

definition after_dispatch_unknown :: "driver \<Rightarrow> acb \<Rightarrow> unit kop" where
  "after_dispatch_unknown drv a =
     (case unknown_recovery_mode a of
        MRetry \<Rightarrow> reserved_retry a (bind_op (call_driver drv a) (\<lambda>r. case r of
            Inl exc \<Rightarrow> retry_failed_exc a exc
          | Inr dr \<Rightarrow> retry_result_after_unknown a dr))
      | MInspect \<Rightarrow> inspect_after_unknown a drv ''dispatch_unknown''
      | MUncertain \<Rightarrow> mark_uncertain_and_release a
          [(''reason'', VStr ''recovery_policy_forbids_blind_retry''), (''disposition'', VStr ''uncertain'')])"

definition after_dispatch :: "driver \<Rightarrow> acb \<Rightarrow> driver_result \<Rightarrow> unit kop" where
  "after_dispatch drv a r =
     (case dr_status r of
        DCompleted \<Rightarrow> commit_or_stale a (dr_output r)
          (\<lambda>fe. stale [] fe [(''fencing_tokens'', tokens_val (a_fencing_tokens a))])
          (\<lambda>fe. stale [] fe [])
      | DFailed \<Rightarrow> fail_and_release a (or_empty (dr_error r)) (or_empty (dr_error r))
      | DUnknown \<Rightarrow> after_dispatch_unknown drv a
      | DRunning \<Rightarrow> ret ())"

definition dispatch_one :: "env \<Rightarrow> acb \<Rightarrow> unit kop" where
  "dispatch_one env a =
     bind_op (gets (\<lambda>s. validate_action_contract s (a_pid a) (a_resource_claims a) (a_lease_ids a) (k_now s)))
       (\<lambda>(valid, err).
     if \<not> valid then fail_undispatched a
       [(''reason'', VStr ''invalid_resource_contract''), (''detail'', opt_str err)]
     else case e_drivers env (a_device_type a) of
       None \<Rightarrow> fail_undispatched a [(''reason'', VStr ''no_driver'')]
     | Some drv \<Rightarrow>
         then_op (dispatch_action (a_action_id a))
         (bind_op (call_driver drv a) (\<lambda>r. case r of
            Inl exc \<Rightarrow> after_dispatch_exception drv a exc
          | Inr dr \<Rightarrow> after_dispatch drv a dr)))"

definition dispatch_pending_actions :: "env \<Rightarrow> unit kop" where
  "dispatch_pending_actions env =
     bind_op (gets (\<lambda>s. filter (\<lambda>a. a_state a = AAdmitted) (list_non_terminal s)))
       (\<lambda>admitted. for_op admitted (dispatch_one env))"

section \<open>Recovering running actions\<close>

definition recover_unknown :: "driver \<Rightarrow> acb \<Rightarrow> recovery_mode \<Rightarrow> unit kop" where
  "recover_unknown drv a mode =
     (case mode of
        MRetry \<Rightarrow> try_op
          (reserved_retry a (bind_op (drv_dispatch drv (a_action_id a) (a_operation a) (a_arguments a))
             (retry_result_after_unknown a)))
          (retry_failed_exc a)
      | MInspect \<Rightarrow> mark_uncertain_and_release a
          [(''reason'', VStr ''inspection_unknown''), (''source'', VStr ''recovery'')]
      | MUncertain \<Rightarrow> mark_uncertain_and_release a
          [(''reason'', VStr ''recovery_policy_forbids_blind_retry''), (''disposition'', VStr ''uncertain'')])"

definition recover_inspected :: "driver \<Rightarrow> acb \<Rightarrow> recovery_mode \<Rightarrow> driver_result \<Rightarrow> unit kop" where
  "recover_inspected drv a mode i =
     (case dr_status i of
        DCompleted \<Rightarrow> commit_or_stale a (dr_output i) (\<lambda>fe. stale [] fe []) (\<lambda>fe. stale [] fe [])
      | DFailed \<Rightarrow> fail_and_release a (or_empty (dr_error i)) (or_empty (dr_error i))
      | DUnknown \<Rightarrow> recover_unknown drv a mode
      | DRunning \<Rightarrow> ret ())"

definition recover_one :: "env \<Rightarrow> acb \<Rightarrow> unit kop" where
  "recover_one env a =
     (case e_drivers env (a_device_type a) of
        None \<Rightarrow> fail_and_release a [(''reason'', VStr ''no_driver'')] [(''reason'', VStr ''no_driver'')]
      | Some drv \<Rightarrow>
          bind_op (gets (action_is_running (a_action_id a))) (\<lambda>running.
          if \<not> running then then_op (release (a_lease_ids a)) (ret ())
          else if unknown_recovery_mode a = MUncertain then mark_uncertain_and_release a
            [(''reason'', VStr ''recovery_policy_forbids_inspection''), (''disposition'', VStr ''uncertain'')]
          else bind_op (try_op (bind_op (drv_inspect drv (a_action_id a)) (\<lambda>r. ret (Inr r))) (\<lambda>e. ret (Inl e))) (\<lambda>r.
            case r of
              Inl exc \<Rightarrow> uncertain_and_release a
                [(''reason'', VStr ''inspect_failed''), (''error'', VStr (err_str exc))]
            | Inr i \<Rightarrow> recover_inspected drv a (unknown_recovery_mode a) i)))"

definition recover_incomplete_actions :: "env \<Rightarrow> unit kop" where
  "recover_incomplete_actions env =
     bind_op (gets (\<lambda>s. filter (\<lambda>a. a_state a = ARunning) (list_non_terminal s)))
       (\<lambda>running. for_op running (recover_one env))"

section \<open>Deadlock recovery\<close>

definition victim_candidates :: "string list \<Rightarrow> kstate \<Rightarrow> (int \<times> nat \<times> string) list" where
  "victim_candidates cycle s =
     concat (map (\<lambda>pid. case get_process s pid of
       None \<Rightarrow> []
     | Some p \<Rightarrow> [(p_priority p, length (list_leases_for_pid s pid), pid)]) cycle)"

definition select_victim :: "string list \<Rightarrow> kstate \<Rightarrow> string" where
  "select_victim cycle s =
     (if victim_candidates cycle s = [] then hd cycle
      else snd (snd (hd (sort (victim_candidates cycle s)))))"

definition is_illegal :: "kerror \<Rightarrow> bool" where
  "is_illegal e = (case e of IllegalStateTransition _ _ _ \<Rightarrow> True | _ \<Rightarrow> False)"

definition recover_deadlock :: "string list \<Rightarrow> unit kop" where
  "recover_deadlock cycle =
     bind_op (gets (select_victim cycle)) (\<lambda>victim.
     let info = PDict [(''cycle'', VList (map VStr cycle)), (''victim'', VStr victim)] in
     then_op (emit victim ''DEADLOCK_DETECTED'' info)
     (then_op (try_op (then_op (transition victim FAILED None) (ret ()))
                (\<lambda>e. if is_illegal e then ret () else raise e))
     (then_op (release_all_for_pid victim)
     (then_op (emit victim ''DEADLOCK_RECOVERED'' info) (ret ())))))"

section \<open>Running a process\<close>

definition fail_process :: "string \<Rightarrow> string \<Rightarrow> pydict \<Rightarrow> unit kop" where
  "fail_process pid ty pl =
     then_op (emit pid ty (PDict pl))
     (then_op (transition pid FAILED None)
     (then_op (release_all_for_pid pid) (ret ())))"

definition action_wait :: "string \<Rightarrow> pydict" where
  "action_wait aid =
     [(''signal_types'', VList [VStr ''ACTION_COMPLETED'', VStr ''ACTION_FAILED'', VStr ''ACTION_UNCERTAIN'']),
      (''action_id'', VStr aid)]"

definition to_ready :: "string \<Rightarrow> unit kop" where
  "to_ready pid = then_op (transition pid READY None) (ret ())"

definition is_lease_failure :: "kerror \<Rightarrow> bool" where
  "is_lease_failure e = (case e of LeaseAcquisitionFailed _ _ \<Rightarrow> True | _ \<Rightarrow> False)"

definition submit_step :: "env \<Rightarrow> string \<Rightarrow> kernel_request \<Rightarrow> unit kop" where
  "submit_step env pid req =
     bind_op (try_op (bind_op (dispatch (e_strict env) (e_full env) req) (\<lambda>ev. ret (Some ev)))
                (\<lambda>e. if is_lease_failure e then ret None else raise e)) (\<lambda>r.
     case r of
       None \<Rightarrow> to_ready pid
     | Some ev \<Rightarrow>
         if ev_event_type ev = ''ACTION_REJECTED'' then to_ready pid
         else bind_op (gets (get_last_action_id pid)) (\<lambda>last_id.
           case last_id of
             None \<Rightarrow> to_ready pid
           | Some aid \<Rightarrow>
               if aid = [] then to_ready pid
               else then_op (transition pid BLOCKED (Some (action_wait aid))) (ret ())))"

definition handle_request :: "env \<Rightarrow> string \<Rightarrow> kernel_request \<Rightarrow> unit kop" where
  "handle_request env pid req =
     (case rq_body req of
        ExitRequest _ _ \<Rightarrow> then_op (dispatch (e_strict env) (e_full env) req) (ret ())
      | SubmitActionRequest _ \<Rightarrow> submit_step env pid req
      | WaitRequest _ _ \<Rightarrow> then_op (dispatch (e_strict env) (e_full env) req) (ret ())
      | _ \<Rightarrow> then_op (dispatch (e_strict env) (e_full env) req) (to_ready pid))"

definition after_step :: "env \<Rightarrow> pcb \<Rightarrow> step_result \<Rightarrow> unit kop" where
  "after_step env p r =
     then_op (modify (save_program_state (p_pid p) (st_new_state r)))
     (then_op (modify (\<lambda>s. upsert_process (p\<lparr>p_event_cursor := next_offset s\<rparr>) s))
     (case st_request r of
        Some (ForeignRequest ty) \<Rightarrow>
          fail_process (p_pid p) ''PROGRAM_REQUEST_REJECTED''
            [(''reason'', VStr ''invalid_request_type''), (''type'', VStr ty)]
      | Some (KernelRequest req) \<Rightarrow> handle_request env (p_pid p) (req\<lparr>rq_pid := p_pid p\<rparr>)
      | None \<Rightarrow>
          (case st_exit_code r of
             Some (c # cs) \<Rightarrow>
               bind_op uuid4 (\<lambda>rid.
               then_op (dispatch (e_strict env) (e_full env)
                 \<lparr>rq_request_id = rid, rq_pid = p_pid p, rq_body = ExitRequest (c # cs) (st_result_ref r)\<rparr>)
               (ret ()))
           | _ \<Rightarrow> to_ready (p_pid p))))"

definition run_program :: "env \<Rightarrow> program \<Rightarrow> pcb \<Rightarrow> unit kop" where
  "run_program env prog p =
     bind_op (gets (\<lambda>s. (dict_set ''pid'' (VStr (p_pid p)) (get_program_state s (p_pid p)),
                         read_last_for_pid_since (p_pid p) (p_event_cursor p) s))) (\<lambda>(st, last_event).
     bind_op (try_op (bind_op (prog st last_event) (\<lambda>r. ret (Inr r))) (\<lambda>e. ret (Inl e))) (\<lambda>r.
     case r of
       Inl e \<Rightarrow> fail_process (p_pid p) ''PROGRAM_STEP_FAILED''
         [(''error'', VStr (err_str e)), (''type'', VStr (err_type e))]
     | Inr result \<Rightarrow> after_step env p result))"

definition run_process_step :: "env \<Rightarrow> pcb \<Rightarrow> unit kop" where
  "run_process_step env p =
     (if p_state p \<noteq> READY then ret ()
      else case e_programs env (p_pid p) of
        None \<Rightarrow> ret ()
      | Some prog \<Rightarrow>
          bind_op (try_op (then_op (transition (p_pid p) RUNNING None) (ret True))
                     (\<lambda>e. if is_illegal e then ret False else raise e)) (\<lambda>scheduled.
          if \<not> scheduled then ret ()
          else bind_op (gets (\<lambda>s. get_process s (p_pid p))) (\<lambda>r. case r of
            None \<Rightarrow> ret ()
          | Some current \<Rightarrow> run_program env prog current)))"

section \<open>The loop\<close>

definition tick :: "env \<Rightarrow> unit kop" where
  "tick env =
     then_op clock_tick
     (then_op (bind_op (gets k_now) reclaim_expired)
     (then_op deliver_pending
     (then_op (recover_incomplete_actions env)
     (then_op (bind_op (gets detect_deadlocks) (\<lambda>cycles. for_op cycles recover_deadlock))
     (then_op (dispatch_pending_actions env)
     (then_op deliver_pending
     (bind_op (gets list_ready) (\<lambda>ready.
        for_op (scheduler_select ready) (run_process_step env)))))))))"

fun run_until_idle :: "env \<Rightarrow> nat \<Rightarrow> unit kop" where
  "run_until_idle env 0 = ret ()"
| "run_until_idle env (Suc n) =
     bind_op (gets (\<lambda>s. list_ready s = [] \<and> list_non_terminal s = [])) (\<lambda>idle.
     if idle then ret () else then_op (tick env) (run_until_idle env n))"

definition kernel_spawn :: "env \<Rightarrow> string \<Rightarrow> program \<Rightarrow> string \<Rightarrow> pydict option \<Rightarrow> (string \<times> env) kop" where
  "kernel_spawn env program_id prog namespace_id initial_state =
     bind_op uuid4 (\<lambda>rid.
     then_op (dispatch (e_strict env) (e_full env)
       \<lparr>rq_request_id = rid, rq_pid = [], rq_body = SpawnRequest
          \<lparr>sp_program_id = program_id, sp_parent_pid = None, sp_capabilities = [],
           sp_namespace_id = namespace_id, sp_resource_group_id = ''default'',
           sp_initial_state = or_empty initial_state\<rparr>\<rparr>)
     (bind_op (gets (\<lambda>s. find (\<lambda>p. p_program_id p = program_id) (rev (list_all_processes s)))) (\<lambda>r.
      case r of
        None \<Rightarrow> raise (OtherError ''RuntimeError'' ''Failed to spawn process'')
      | Some p \<Rightarrow> ret (p_pid p, env\<lparr>e_programs := (e_programs env)(p_pid p \<mapsto> prog)\<rparr>))))"

end
