(* ===== verification/LeaseLaws.thy ===== *)
theory LeaseLaws
  imports Leases
begin

text \<open>
  What the lease service promises to its callers, over the operations of \<open>Leases\<close>: acquisition
  is all or nothing, renewal never revives an expired lease, releases and reclamations remove
  exactly the leases they name, and the deadlock detector reports cycles of the wait-for relation
  and misses none.
\<close>

section \<open>The empty database\<close>

lemma init_sel [simp]:
  "k_journal init_kstate = []" "k_next_offset init_kstate = Some 0" "k_processes init_kstate = []"
  "k_program_states init_kstate = Map.empty" "k_actions init_kstate = []" "k_leases init_kstate = []"
  "k_fences init_kstate = Map.empty" "k_waiters init_kstate = []" "k_signals init_kstate = []"
  "k_capability_sets init_kstate = []" "k_checkpoints init_kstate = []" "k_now init_kstate = 0"
  "k_logical init_kstate = 0" "k_uuids init_kstate = 0"
  by (simp_all add: init_kstate_def)

lemma init_ok [simp]: "journal_ok init_kstate" "lease_inv init_kstate" "owner_open init_kstate pid"
  by (simp_all add: journal_ok_def lease_inv_def owner_open_def get_process_def)

section \<open>Acquisition\<close>

lemma refuse_busy_run:
  assumes "journal_ok s"
  shows "\<exists>t. refuse_busy pid c s = (Inl (LeaseAcquisitionFailed pid (cl_resource_id c)), t) \<and>
    k_leases t = k_leases s \<and> k_fences t = k_fences s \<and>
    w_resource_id ` set (filter (\<lambda>w. w_pid w = pid) (k_waiters t)) = {cl_resource_id c}"
proof -
  define u where "u = add_waiter pid (cl_resource_id c) (snd (clear_waiters_for_pid pid s))"
  have u: "journal_ok u" "k_leases u = k_leases s" "k_fences u = k_fences s"
    "w_resource_id ` set (filter (\<lambda>w. w_pid w = pid) (k_waiters u)) = {cl_resource_id c}"
    using assms by (auto simp: u_def clear_waiters_sel add_waiter_def journal_ok_def filter_empty_conv)
  obtain ev t where e: "emit pid ''LEASE_ACQUIRE_FAILED'' (PDict
        [(''resource_id'', VStr (cl_resource_id c)),
         (''mode'', VStr (mode_value (cl_mode c))), (''reason'', VStr ''resource_busy'')]) u = (Inr ev, t)"
    "journal_only u t"
    using emit_ok [OF u(1)] stepsD [OF jo_emit] by blast
  have "refuse_busy pid c s = (Inl (LeaseAcquisitionFailed pid (cl_resource_id c)), t)"
    using e(1) unfolding u_def
    by (simp add: refuse_busy_def then_op_def bind_op_def clear_waiters_for_pid_def)
  then show ?thesis using u by (auto simp: journal_only_sel [OF e(2)])
qed

text \<open>
  C19: Acquiring a list of claims on distinct resources is all or nothing. If no claim conflicts with
  a lease that is held, every claim is granted, in order, to the caller and until the requested
  expiry, and the caller waits for nothing any more; the lease invariant (one holder per exclusive
  lease, one current fencing token per resource) is kept. Otherwise the call fails with a claim
  that really conflicts, no lease and no fence has changed, and the caller is registered as waiting
  for the conflicting resource only.
\<close>

theorem atomic_acquire_all_or_nothing:
  assumes ok: "journal_ok s" and inv: "lease_inv s" and op: "owner_open s pid"
    and ne: "claims \<noteq> []" and dist: "distinct (map cl_resource_id claims)"
  shows "if \<forall>c \<in> set claims. \<forall>l \<in> set (k_leases s). \<not> conflicts c l
    then \<exists>ls t. atomic_acquire pid claims ttl s = (Inr ls, t) \<and>
      list_all2 (matches_claim pid (k_now s + ttl)) claims ls \<and> k_leases t = k_leases s @ ls \<and>
      lease_inv t \<and> (\<forall>w \<in> set (k_waiters t). w_pid w \<noteq> pid)
    else \<exists>c t. atomic_acquire pid claims ttl s = (Inl (LeaseAcquisitionFailed pid (cl_resource_id c)), t) \<and>
      c \<in> set claims \<and> (\<exists>l \<in> set (k_leases s). conflicts c l) \<and>
      k_leases t = k_leases s \<and> k_fences t = k_fences s \<and>
      w_resource_id ` set (filter (\<lambda>w. w_pid w = pid) (k_waiters t)) = {cl_resource_id c}"
proof (cases "busy_claim (k_leases s) claims")
  case None
  note run = atomic_acquire_run [OF ne dist, of pid ttl s]
  obtain ls t where t: "acquire_tx pid claims ttl s = (Inr (None, ls), t)"
    "list_all2 (matches_claim pid (k_now s + ttl)) claims ls \<and> k_leases t = k_leases s @ ls \<and>
      lease_inv t \<and> (\<forall>w \<in> set (k_waiters t). w_pid w \<noteq> pid)"
    using acquire_tx_granted [OF ok inv op dist None] by blast
  have free: "\<forall>c \<in> set claims. \<forall>l \<in> set (k_leases s). \<not> conflicts c l"
    using None by (simp only: busy_claim_None)
  have "atomic_acquire pid claims ttl s = (Inr ls, t)" using run t(1) by simp
  then show ?thesis unfolding if_P [OF free] using t(2) by blast
next
  case (Some c)
  note run = atomic_acquire_run [OF ne dist, of pid ttl s]
  have "\<not> (case get_process s pid of None \<Rightarrow> False | Some p \<Rightarrow> p_state p \<in> TERMINAL_PROCESS_STATES)"
    using op by (auto simp: owner_open_def split: option.splits)
  then have "acquire_tx pid claims ttl s = (Inr (Some c, []), s)"
    using Some by (simp add: acquire_tx_def)
  then have "atomic_acquire pid claims ttl s = refuse_busy pid c s" using run by simp
  moreover have c: "c \<in> set claims" "\<exists>l \<in> set (k_leases s). conflicts c l"
    using busy_claim_Some [OF Some] by auto
  then have busy: "\<not> (\<forall>c \<in> set claims. \<forall>l \<in> set (k_leases s). \<not> conflicts c l)" by blast
  ultimately show ?thesis
    unfolding if_not_P [OF busy] using c refuse_busy_run [OF ok, of pid c] by metis
qed

theorem atomic_acquire_all_or_nothing_witness:
  "if \<forall>c \<in> set [\<lparr>cl_resource_id = ''r'', cl_mode_field = None\<rparr>].
      \<forall>l \<in> set (k_leases init_kstate). \<not> conflicts c l
   then \<exists>ls t. atomic_acquire ''p'' [\<lparr>cl_resource_id = ''r'', cl_mode_field = None\<rparr>] 5 init_kstate = (Inr ls, t) \<and>
      list_all2 (matches_claim ''p'' (k_now init_kstate + 5)) [\<lparr>cl_resource_id = ''r'', cl_mode_field = None\<rparr>] ls \<and>
      k_leases t = k_leases init_kstate @ ls \<and>
      lease_inv t \<and> (\<forall>w \<in> set (k_waiters t). w_pid w \<noteq> ''p'')
   else False"
  using atomic_acquire_all_or_nothing [of init_kstate "''p''" "[\<lparr>cl_resource_id = ''r'', cl_mode_field = None\<rparr>]" 5]
  by simp

text \<open>
  C20: Whatever the state and the claims, an acquisition that fails has changed neither the leases
  nor the fencing tokens.
\<close>

theorem atomic_acquire_failure_is_harmless:
  assumes "atomic_acquire pid claims ttl s = (Inl e, t)"
  shows "k_leases t = k_leases s \<and> k_fences t = k_fences s"
  using assms by (rule acquire_refused)

theorem atomic_acquire_failure_is_harmless_witness:
  "let c = \<lparr>cl_resource_id = ''r'', cl_mode_field = Some Shared\<rparr>;
       r = atomic_acquire ''p'' [c, c] 5 init_kstate
   in fst r = Inl (LeaseAcquisitionFailed ''p'' ''r'') \<and> k_leases (snd r) = [] \<and> k_fences (snd r) = Map.empty"
  using atomic_acquire_failure_is_harmless
    [of "''p''" "[\<lparr>cl_resource_id = ''r'', cl_mode_field = Some Shared\<rparr>,
        \<lparr>cl_resource_id = ''r'', cl_mode_field = Some Shared\<rparr>]" 5 init_kstate
      "LeaseAcquisitionFailed ''p'' ''r''" init_kstate]
  by (simp add: atomic_acquire_def)

section \<open>Renewal, release and reclamation\<close>

text \<open>
  C21: Renewing extends the named lease when it is held and has not expired, and changes no other
  lease and no fence; when the lease is gone or has expired the call returns nothing and writes
  nothing, not even an event.
\<close>

theorem renew_only_live_leases:
  assumes ok: "journal_ok s" and inv: "lease_inv s"
  shows "case get_lease s lid of
      Some l \<Rightarrow>
        if k_now s < l_expires_at l
        then \<exists>t. renew lid ttl s = (Inr (Some (l\<lparr>l_expires_at := k_now s + ttl\<rparr>)), t) \<and>
          (\<forall>i. get_lease t i = (if i = lid then Some (l\<lparr>l_expires_at := k_now s + ttl\<rparr>) else get_lease s i)) \<and>
          k_fences t = k_fences s \<and> journal_ok t
        else renew lid ttl s = (Inr None, s)
    | None \<Rightarrow> renew lid ttl s = (Inr None, s)"
proof (cases "get_lease s lid")
  case None
  then show ?thesis using renew_refused [OF inv, of lid ttl] by simp
next
  case (Some l)
  then show ?thesis
    using renew_refused [OF inv, of lid ttl] renew_granted [OF ok inv Some]
    by (cases "k_now s < l_expires_at l") simp_all
qed

theorem renew_only_live_leases_witness:
  "renew ''gone'' 7 init_kstate = (Inr None, init_kstate)"
  using renew_only_live_leases [of init_kstate "''gone''" 7] by (simp add: get_lease_def)

text \<open>
  C22: Releasing everything a process holds removes exactly its leases and its waiting entries and
  reports how many leases there were; fencing tokens, processes and actions stay, so a released
  token is never handed out again.
\<close>

theorem release_all_for_pid_removes_exactly:
  assumes "journal_ok s" "lease_inv s" "pid \<noteq> []"
  shows "\<exists>t. release_all_for_pid pid s = (Inr (length (list_leases_for_pid s pid)), t) \<and>
    k_leases t = filter (\<lambda>l. l_owner_pid l \<noteq> pid) (k_leases s) \<and>
    k_waiters t = filter (\<lambda>w. w_pid w \<noteq> pid) (k_waiters s) \<and> k_fences t = k_fences s \<and>
    k_processes t = k_processes s \<and> k_actions t = k_actions s"
  using release_all_result [OF assms] by blast

theorem release_all_for_pid_removes_exactly_witness:
  "\<exists>t. release_all_for_pid ''p'' init_kstate = (Inr 0, t) \<and> k_leases t = []"
  using release_all_for_pid_removes_exactly [of init_kstate "''p''"] by (auto simp: list_leases_for_pid_def)

text \<open>
  C23: Reclamation at a cutoff removes exactly the leases that have expired by then, and moves no
  fence.
\<close>

theorem reclaim_expired_removes_exactly:
  assumes "journal_ok s" "lease_inv s"
  shows "\<exists>t. reclaim_expired cutoff s = (Inr (length (filter (\<lambda>l. l_expires_at l \<le> cutoff) (k_leases s))), t) \<and>
    k_leases t = filter (\<lambda>l. cutoff < l_expires_at l) (k_leases s) \<and>
    k_waiters t = k_waiters s \<and> k_fences t = k_fences s"
  using reclaim_result [OF assms] by blast

theorem reclaim_expired_removes_exactly_witness:
  "\<exists>t. reclaim_expired 9 init_kstate = (Inr 0, t) \<and> k_leases t = []"
  using reclaim_expired_removes_exactly [of init_kstate 9] by auto

section \<open>Deadlocks\<close>

text \<open>
  C24: Every cycle the detector reports is a deadlock: its processes are distinct, and each of them
  waits for a resource on which the next one (the first one after the last) holds a lease.
\<close>

theorem detect_deadlocks_sound:
  assumes "c \<in> set (detect_deadlocks s)"
  shows "c \<noteq> [] \<and> distinct c \<and> (\<forall>i < length c. \<exists>w \<in> set (k_waiters s). \<exists>l \<in> set (k_leases s).
    w_pid w = c ! i \<and> l_owner_pid l = c ! (Suc i mod length c) \<and> w_resource_id w = l_resource_id l)"
  using find_cycles_genuine [OF assms [unfolded detect_deadlocks_def]]
  by (simp add: is_cycle_def waits_on_graph)

text \<open>
  C25: No deadlock goes unnoticed: when distinct processes wait for one another in a circle, some
  reported cycle contains one of them.
\<close>

theorem detect_deadlocks_complete:
  assumes "distinct c" "1 < length c"
    and "\<forall>i < length c. \<exists>w \<in> set (k_waiters s). \<exists>l \<in> set (k_leases s).
      w_pid w = c ! i \<and> l_owner_pid l = c ! (Suc i mod length c) \<and> w_resource_id w = l_resource_id l"
  shows "\<exists>c' \<in> set (detect_deadlocks s). set c' \<inter> set c \<noteq> {}"
proof -
  have "c ! i \<noteq> c ! (Suc i mod length c)" if "i < length c" for i
  proof -
    have "Suc i mod length c \<noteq> i" using that assms(2) by (cases "Suc i = length c") auto
    moreover have "Suc i mod length c < length c" using assms(2) by (intro mod_less_divisor) auto
    ultimately show ?thesis using that assms(1) by (simp add: nth_eq_iff_index_eq)
  qed
  then have "is_cycle (wait_for_graph s) c"
    using assms by (auto simp: is_cycle_def waits_on_graph)
  then show ?thesis unfolding detect_deadlocks_def by (rule find_cycles_meets)
qed

text \<open>Two processes, each holding what the other waits for.\<close>

definition deadlocked :: kstate where
  "deadlocked = init_kstate\<lparr>
     k_leases := map (\<lambda>(i, r, p). \<lparr>l_lease_id = i, l_resource_id = r, l_owner_pid = p, l_mode = Exclusive,
       l_fencing_token = 1, l_acquired_at = 0, l_expires_at = 9, l_renewable = True, l_revocable = True\<rparr>)
       [(''x'', ''r'', ''a''), (''y'', ''q'', ''b'')],
     k_waiters := [\<lparr>w_pid = ''a'', w_resource_id = ''q'', w_wait_since = 0\<rparr>,
       \<lparr>w_pid = ''b'', w_resource_id = ''r'', w_wait_since = 0\<rparr>]\<rparr>"

theorem detect_deadlocks_complete_witness:
  "\<exists>c' \<in> set (detect_deadlocks deadlocked). set c' \<inter> set [''a'', ''b''] \<noteq> {}"
  by (rule detect_deadlocks_complete) (auto simp: deadlocked_def less_Suc_eq)

theorem detect_deadlocks_sound_witness:
  "[''a'', ''b''] \<in> set (detect_deadlocks deadlocked) \<and> distinct [''a'', ''b'']"
proof -
  have m: "[''a'', ''b''] \<in> set (detect_deadlocks deadlocked)" by code_simp
  then show ?thesis using detect_deadlocks_sound [OF m] by simp
qed

end
