(* ===== verification/Replay.thy ===== *)
theory Replay
  imports Drivers LeaseLaws
begin

text \<open>
  Rebuilding the projections from the journal: \<open>rebuild_projections\<close> of
  \<open>agent_os/services/journal.py\<close> and \<open>rebuild_from_journal\<close> of \<open>agent_os/sdk/client.py\<close>. The
  artifact tables and their two handlers are not part of the model. The lemmas relate the rebuilt
  tables to a replay on the empty database.
\<close>

section \<open>Operations\<close>

definition clear_projections :: "kstate \<Rightarrow> kstate" where
  "clear_projections s = s\<lparr>k_processes := [], k_actions := [], k_leases := [], k_signals := [],
     k_program_states := Map.empty, k_checkpoints := [], k_capability_sets := [], k_waiters := [],
     k_next_offset := Some (if k_journal s = [] then 0 else Max (set (map ev_journal_offset (k_journal s))) + 1)\<rparr>"

definition rebuild_projections :: "(event \<Rightarrow> unit kop) list \<Rightarrow> nat kop" where
  "rebuild_projections handlers =
     then_op (modify clear_projections)
     (bind_op (gets read_all) (\<lambda>events.
      then_op (for_op events (\<lambda>ev. for_op handlers (\<lambda>handle. handle ev)))
      (ret (length events))))"

text \<open>\<open>create_kernel\<close>: the wiring of the services is the state; what is left is the environment.\<close>

definition create_kernel :: "(nat \<Rightarrow> string) \<Rightarrow> bool \<Rightarrow> env" where
  "create_kernel ids strict = (default_env ids)\<lparr>e_strict := strict\<rparr>"

definition kernel_handlers :: "(event \<Rightarrow> unit kop) list" where
  "kernel_handlers = [process_handle_event, action_handle_event, capability_handle_event,
     lease_handle_event, signal_handle_event]"

definition rebuild_from_journal :: "(nat \<Rightarrow> string) \<Rightarrow> bool \<Rightarrow> env kop" where
  "rebuild_from_journal ids strict =
     then_op (rebuild_projections kernel_handlers) (ret (create_kernel ids strict))"

section \<open>Replay from the empty database\<close>

definition handle_all :: "event \<Rightarrow> unit kop" where
  "handle_all ev = for_op kernel_handlers (\<lambda>handle. handle ev)"

lemma next_offset_cleared:
  assumes "journal_ok t" shows "k_next_offset (clear_projections t) = k_next_offset t"
proof (cases "k_journal t = []")
  case False
  have "set (map ev_journal_offset (k_journal t)) = int ` {0..<length (k_journal t)}"
    using journal_ok_offsets [OF assms] by simp
  moreover have "Max (int ` {0..<length (k_journal t)}) = int (length (k_journal t) - 1)"
    using False by (intro Max_eqI) auto
  ultimately show ?thesis
    using assms False by (simp add: clear_projections_def journal_ok_def of_nat_diff Suc_le_eq)
qed (use assms in \<open>simp add: clear_projections_def journal_ok_def\<close>)

lemma for_op_append: "for_op (xs @ ys) f = then_op (for_op xs f) (for_op ys f)"
proof (induction xs)
  case Nil
  show ?case by (rule ext) (simp add: then_op_def bind_op_def)
qed (simp add: then_op_def bind_op_assoc)

lemma sort_offsets:
  assumes "journal_ok s" "length (k_journal s) \<le> 10 ^ 9"
  shows "read_all s = k_journal s"
proof -
  have off: "map ev_journal_offset (k_journal s) = map int [0..<length (k_journal s)]"
    using assms(1) by (simp add: journal_ok_def)
  then have "sorted (map ev_journal_offset (k_journal s))" by (simp add: sorted_map sorted_wrt_upt)
  moreover have "0 \<le> ev_journal_offset e" if "e \<in> set (k_journal s)" for e
    using that journal_ok_offsets [OF assms(1)] by force
  then have "filter (\<lambda>e. 0 \<le> ev_journal_offset e) (k_journal s) = k_journal s" by (intro filter_True) auto
  ultimately show ?thesis
    using assms(2) by (simp add: read_all_def read_from_offset_def sort_key_id_if_sorted)
qed

text \<open>
  A rebuild starts from the live fences, a replay from none; apart from that they run in lockstep.
\<close>

definition max_fence :: "(string \<rightharpoonup> int) \<Rightarrow> (string \<rightharpoonup> int) \<Rightarrow> string \<rightharpoonup> int" where
  "max_fence F G rid = (case F rid of None \<Rightarrow> G rid | Some f \<Rightarrow>
     (case G rid of None \<Rightarrow> Some f | Some g \<Rightarrow> Some (max f g)))"

lemma max_fence_simps: "max_fence F Map.empty = F" "max_fence F F = F"
  by (auto simp: max_fence_def fun_eq_iff split: option.splits)

lemma max_fence_raise:
  "max_fence F (G(rid \<mapsto> (case G rid of None \<Rightarrow> t | Some f \<Rightarrow> max f t))) =
     (max_fence F G)(rid \<mapsto> (case max_fence F G rid of None \<Rightarrow> t | Some f \<Rightarrow> max f t))"
  by (auto simp: max_fence_def fun_eq_iff split: option.splits)

definition mirrors :: "(string \<rightharpoonup> int) \<Rightarrow> kstate \<Rightarrow> kstate \<Rightarrow> bool" where
  "mirrors F r r' \<longleftrightarrow> k_processes r' = k_processes r \<and> k_actions r' = k_actions r \<and> k_leases r' = k_leases r \<and>
     k_signals r' = k_signals r \<and> k_capability_sets r' = k_capability_sets r \<and> k_fences r' = max_fence F (k_fences r)"

definition lockstep :: "(string \<rightharpoonup> int) \<Rightarrow> unit kop \<Rightarrow> bool" where
  "lockstep F m \<longleftrightarrow> (\<forall>r r' r1. mirrors F r r' \<and> m r = (Inr (), r1) \<longrightarrow> (\<exists>r1'. m r' = (Inr (), r1') \<and> mirrors F r1 r1'))"

lemma lockstep_then: "lockstep F m \<Longrightarrow> lockstep F n \<Longrightarrow> lockstep F (then_op m n)"
  unfolding lockstep_def then_op_eq_Inr_iff by simp metis

lemma lockstep_for: "(\<And>x. x \<in> set xs \<Longrightarrow> lockstep F (f x)) \<Longrightarrow> lockstep F (for_op xs f)"
proof (induction xs)
  case Nil
  show ?case by (simp add: lockstep_def)
next
  case (Cons x xs)
  then show ?case unfolding for_op.simps by (intro lockstep_then) auto
qed

lemma lockstep_modify: "(\<And>r r'. mirrors F r r' \<Longrightarrow> mirrors F (g r) (g r')) \<Longrightarrow> lockstep F (modify g)"
  by (simp add: lockstep_def)

lemma lockstep_ret: "lockstep F (ret ())" "lockstep F (raise e)"
  by (simp_all add: lockstep_def)

lemma lockstep_row:
  assumes "\<And>r r'. mirrors F r r' \<Longrightarrow> look r' = look r" "\<And>x. lockstep F (f x)"
  shows "lockstep F (bind_op (gets look) f)"
  using assms unfolding lockstep_def by (auto simp: bind_op_def)

lemma mirrors_writes:
  assumes "mirrors F r r'"
  shows "mirrors F (upsert_process p r) (upsert_process p r')" "mirrors F (upsert_action a r) (upsert_action a r')"
    "mirrors F (save_program_state pid st r) (save_program_state pid st' r')"
    "mirrors F (upsert_signal g r) (upsert_signal g r')" "mirrors F (set_consumed i r) (set_consumed i r')"
    "mirrors F (r\<lparr>k_leases := ls\<rparr>) (r'\<lparr>k_leases := ls\<rparr>)"
    "mirrors F (raise_fence rid t r) (raise_fence rid t r')"
  using assms max_fence_raise
  by (simp_all add: mirrors_def upsert_process_def upsert_action_def save_program_state_def upsert_signal_def
      set_consumed_def raise_fence_def set_fence_def)

lemma mirrors_reads:
  assumes "mirrors F r r'"
  shows "get_process r' pid = get_process r pid" "get_action r' aid = get_action r aid" "k_leases r' = k_leases r"
  using assms by (simp_all add: mirrors_def get_process_def get_action_def)

lemma lockstep_process: "lockstep F (process_handle_event ev)"
proof -
  have state: "lockstep F (replay_process_state ev)"
    unfolding replay_process_state_def Let_def
    by (auto split: option.split val.split intro!: lockstep_row lockstep_modify lockstep_ret mirrors_writes mirrors_reads)
  have exit: "lockstep F (replay_process_exit ev)"
    unfolding replay_process_exit_def Let_def
    by (auto split: option.split val.split intro!: lockstep_row lockstep_modify lockstep_ret mirrors_writes mirrors_reads)
  show ?thesis
    unfolding process_handle_event_def
    by (auto split: option.split payload.split
        intro!: lockstep_then lockstep_row lockstep_modify lockstep_ret mirrors_writes mirrors_reads state exit)
qed

lemma lockstep_action: "lockstep F (action_handle_event ev)"
  unfolding action_handle_event_def
  by (auto split: option.split payload.split val.split
      intro!: lockstep_row lockstep_modify lockstep_ret mirrors_writes mirrors_reads)

lemma lockstep_signal: "lockstep F (signal_handle_event ev)"
  unfolding signal_handle_event_def
  by (auto split: option.split payload.split val.split intro!: lockstep_modify lockstep_ret mirrors_writes)

lemma lockstep_lease: "lockstep F (lease_handle_event ev)"
proof -
  have del: "lockstep F (then_op (delete_leases P) (ret ()))" for P
    by (auto simp: lockstep_def delete_leases_def then_op_def bind_op_def mirrors_def)
  have repl: "mirrors F (raise_fence i t (r\<lparr>k_leases := f (k_leases r)\<rparr>)) (raise_fence i t (r'\<lparr>k_leases := f (k_leases r')\<rparr>))"
    if "mirrors F r r'" for i t r r' f
    using that by (intro mirrors_writes(7)) (simp add: mirrors_def)
  show ?thesis
    unfolding lease_handle_event_def
    by (auto split: payload.split val.split prod.split intro!: lockstep_modify lockstep_ret del repl simp: mirrors_def)
qed

lemma lockstep_capability: "ev_event_type ev \<noteq> ''CAPABILITY_GRANTED'' \<Longrightarrow> lockstep F (capability_handle_event ev)"
  unfolding capability_handle_event_def
  by (auto split: payload.split simp: lockstep_def mirrors_def upsert_capability_set_def split: if_splits)

lemma lockstep_all:
  assumes "\<forall>ev \<in> set evs. ev_event_type ev \<noteq> ''CAPABILITY_GRANTED''"
  shows "lockstep F (for_op evs handle_all)"
  using assms unfolding handle_all_def kernel_handlers_def
  by (intro lockstep_for) (auto intro: lockstep_process lockstep_action lockstep_signal lockstep_lease lockstep_capability)

text \<open>A replay writes nothing outside the rebuilt tables.\<close>

definition outside :: "kstate \<Rightarrow> event list \<times> int option \<times> nat \<times> waiter list \<times> checkpoint list" where
  "outside s = (k_journal s, k_next_offset s, k_uuids s, k_waiters s, k_checkpoints s)"

lemma outside_writes:
  "outside (upsert_process p s) = outside s" "outside (upsert_action a s) = outside s"
  "outside (save_program_state pid st s) = outside s" "outside (upsert_signal g s) = outside s"
  "outside (set_consumed i s) = outside s" "outside (raise_fence rid t s) = outside s"
  "outside (s\<lparr>k_leases := ls\<rparr>) = outside s"
  by (simp_all add: outside_def upsert_signal_def set_consumed_def raise_fence_def set_fence_def)

lemma outside_process: "keeps outside (process_handle_event ev)"
proof -
  have state: "keeps outside (replay_process_state ev)"
    unfolding replay_process_state_def Let_def
    by (auto split: option.split val.split intro!: keeps_rules keeps_modify outside_writes)
  have exit: "keeps outside (replay_process_exit ev)"
    unfolding replay_process_exit_def Let_def
    by (auto split: option.split val.split intro!: keeps_rules keeps_modify outside_writes)
  show ?thesis
    unfolding process_handle_event_def
    by (auto split: option.split payload.split intro!: keeps_rules keeps_modify outside_writes state exit)
qed

lemma outside_action: "keeps outside (action_handle_event ev)"
  unfolding action_handle_event_def
  by (auto split: option.split payload.split val.split intro!: keeps_rules keeps_modify outside_writes)

lemma outside_signal: "keeps outside (signal_handle_event ev)"
  unfolding signal_handle_event_def
  by (auto split: payload.split val.split intro!: keeps_rules keeps_modify outside_writes)

lemma outside_tables: "keeps outside (upsert_capability_set cs)" "keeps outside (delete_leases P)"
  by (auto simp: keeps_def outside_def upsert_capability_set_def delete_leases_def)

lemma outside_capability: "ev_event_type ev \<noteq> ''CAPABILITY_GRANTED'' \<Longrightarrow> keeps outside (capability_handle_event ev)"
  unfolding capability_handle_event_def by (auto split: payload.split intro!: keeps_rules outside_tables)

lemma outside_lease: "keeps outside (lease_handle_event ev)"
  unfolding lease_handle_event_def
  by (auto split: payload.split val.split intro!: keeps_rules keeps_modify outside_tables simp: outside_writes)

lemma outside_handle_all:
  "ev_event_type ev \<noteq> ''CAPABILITY_GRANTED'' \<Longrightarrow> keeps outside (handle_all ev)"
  unfolding handle_all_def kernel_handlers_def
  by (intro kept.steps_for [folded keeps_steps]) (auto intro: outside_process outside_action outside_capability outside_lease outside_signal)

text \<open>What a replay on the empty database restores, a rebuild restores in place.\<close>

lemma rebuild_of_replay:
  assumes ok: "journal_ok t" and len: "length (k_journal t) \<le> 10 ^ 9"
    and no: "\<forall>ev \<in> set (k_journal t). ev_event_type ev \<noteq> ''CAPABILITY_GRANTED''"
    and r: "for_op (k_journal t) handle_all init_kstate = (Inr (), r)" "k_fences r = k_fences t"
  shows "\<exists>u. rebuild_from_journal ids strict t = (Inr (create_kernel ids strict), u) \<and> mirrors (k_fences t) r u \<and>
    outside u = (k_journal t, k_next_offset t, k_uuids t, [], [])"
proof -
  let ?c = "clear_projections t"
  have "mirrors (k_fences t) init_kstate ?c"
    by (simp add: mirrors_def clear_projections_def max_fence_simps)
  then obtain u where u: "for_op (k_journal t) handle_all ?c = (Inr (), u)" "mirrors (k_fences t) r u"
    using lockstep_all [OF no] r(1) unfolding lockstep_def by blast
  have keep: "keeps outside (for_op (k_journal t) handle_all)"
    using no by (intro kept.steps_for [folded keeps_steps] outside_handle_all) simp
  have "k_journal ?c = k_journal t" "k_uuids ?c = k_uuids t" by (simp_all add: clear_projections_def)
  moreover have "k_next_offset ?c = k_next_offset t" by (rule next_offset_cleared [OF ok])
  ultimately have c: "outside ?c = (k_journal t, k_next_offset t, k_uuids t, [], [])" "journal_ok ?c"
    using ok by (simp_all add: outside_def journal_ok_def clear_projections_def)
  have "read_all ?c = k_journal t" using sort_offsets [OF c(2)] len by (simp add: clear_projections_def)
  then have "rebuild_from_journal ids strict t = (Inr (create_kernel ids strict), u)"
    using u(1) by (simp add: rebuild_from_journal_def rebuild_projections_def then_op_def bind_op_def handle_all_def [abs_def])
  moreover have "outside u = outside ?c" using keepsD [OF keep u(1)] .
  ultimately show ?thesis using u(2) c(1) by simp
qed

section \<open>Events that no handler looks at\<close>

definition unhandled :: "string \<Rightarrow> bool" where
  "unhandled ty \<longleftrightarrow> \<not> is_process_event ty \<and> ty \<noteq> ''ACTION_SUBMITTED'' \<and> ty \<notin> set action_events \<and>
     ty \<notin> {''CAPABILITY_SET_CREATED'', ''CAPABILITY_GRANTED'', ''LEASE_ACQUIRED'', ''LEASE_RELEASED'',
       ''LEASE_EXPIRED'', ''LEASE_RENEWED'', ''SIGNAL_SENT'', ''SIGNAL_CONSUMED''}"

text \<open>The refusal of a request without an effect contract names no action.\<close>

definition quiet :: "string \<Rightarrow> payload \<Rightarrow> bool" where
  "quiet ty pl \<longleftrightarrow> unhandled ty \<or>
     ty = ''ACTION_REJECTED'' \<and> (\<exists>d. pl = PDict d \<and> dict_get d ''action_id'' = VNone)"

lemmas event_class_defs = unhandled_def is_process_event_def action_events_def

lemma handle_all_run:
  "handle_all ev = then_op (process_handle_event ev) (then_op (action_handle_event ev)
     (then_op (capability_handle_event ev) (then_op (lease_handle_event ev) (then_op (signal_handle_event ev) (ret ())))))"
  by (simp add: handle_all_def kernel_handlers_def)

lemma quiet_handle:
  assumes "quiet (ev_event_type ev) (ev_payload ev)"
  shows "handle_all ev r = (Inr (), r)"
proof (cases "unhandled (ev_event_type ev)")
  case True
  then have "process_handle_event ev = ret ()" "action_handle_event ev = ret ()" "capability_handle_event ev = ret ()"
    "lease_handle_event ev = ret ()" "signal_handle_event ev = ret ()"
    by (auto simp: unhandled_def process_handle_event_def action_handle_event_def capability_handle_event_def
        lease_handle_event_def signal_handle_event_def is_process_event_def)
  then show ?thesis by (simp add: handle_all_run)
next
  case False
  then have e: "ev_event_type ev = ''ACTION_REJECTED''" "payload_get ev ''action_id'' = VNone"
    using assms by (auto simp: quiet_def payload_get_def)
  then have "process_handle_event ev = ret ()" "action_handle_event ev = ret ()" "capability_handle_event ev = ret ()"
    "lease_handle_event ev = ret ()" "signal_handle_event ev = ret ()"
    by (simp_all add: process_handle_event_def action_handle_event_def capability_handle_event_def
        lease_handle_event_def signal_handle_event_def is_process_event_def action_events_def)
  then show ?thesis by (simp add: handle_all_run)
qed

lemma quiet_events [simp]:
  "quiet ''CAPABILITY_DENIED'' pl" "quiet ''SPAWN_FAILED'' pl" "quiet ''SPAWN_COMPLETE'' pl"
  "quiet ''ACTION_INSPECTED'' pl" "quiet ''ACTION_INSPECT_FAILED'' pl" "quiet ''CHECKPOINT_CREATED'' pl"
  "quiet ''CHECKPOINT_RESTORED'' pl" "quiet ''CHECKPOINT_RESTORE_FAILED'' pl" "quiet ''DEADLOCK_DETECTED'' pl"
  "quiet ''DEADLOCK_RECOVERED'' pl" "quiet ''PROGRAM_STEP_FAILED'' pl" "quiet ''PROGRAM_REQUEST_REJECTED'' pl"
  "quiet ''LEASE_ACQUIRE_FAILED'' pl"
  by (simp_all add: quiet_def event_class_defs)

lemma quiet_rejection [simp]:
  "dict_get d ''action_id'' = VNone \<Longrightarrow> quiet ''ACTION_REJECTED'' (PDict d)"
  by (simp add: quiet_def)

end
