(* ===== verification/KernelSteps.thy ===== *)
theory KernelSteps
  imports Refine Replay
begin

text \<open>
  System calls and the kernel loop, seen from the services they call. Whatever relation every
  service operation respects (the locale \<open>services\<close>) is respected by every system call, and, if
  drivers and programs respect it too (the locale \<open>kernel_rely\<close>), by the whole loop. The first such
  relation is reachability by abstract kernel steps.
\<close>

section \<open>Rows after an operation\<close>

lemma transition_row:
  assumes "transition pid target wait s = (Inr ev, t)"
  shows "\<exists>p. get_process t pid = Some p \<and> p_state p = target"
proof -
  obtain p p' r u where p: "get_process s pid = Some p" "apply_process_transition p target wait = Inr (p', r)"
    and t: "t = upsert_process p' u"
    using assms
    by (auto simp: transition_def bind_op_eq_Inr_iff then_op_eq_Inr_iff split: option.splits sum.splits)
  have "p_pid p = pid" using get_process_mem [OF p(1)] by blast
  then have "p_pid p' = pid" "p_state p' = target" using apply_process_InrD(1,2) [OF p(2)] by auto
  then show ?thesis unfolding t get_upsert_process by (auto split: option.split)
qed

lemma spawn_row:
  assumes "spawn prog ns cap parent grp pri st s = (Inr p, t)"
  shows "get_process t (p_pid p) = Some p"
proof -
  obtain pid q u ev where "transition pid READY None u = (Inr ev, t)"
    and p: "p = (case get_process t pid of Some x \<Rightarrow> x | None \<Rightarrow> q)"
    using assms by (auto simp: spawn_def Let_def bind_op_eq_Inr_iff then_op_eq_Inr_iff)
  then obtain x where "get_process t pid = Some x" using transition_row by blast
  then show ?thesis using p get_process_mem by fastforce
qed

lemma keeps_processes_caps: "keeps k_processes (create_capability_set pid caps)"
proof -
  have "keeps k_processes (emit a b c)" for a b c
    using jo_emit [of a b c] by (auto simp: keeps_def steps_def intro: journal_only_sel)
  moreover have "keeps k_processes (upsert_capability_set cs)" for cs
    by (simp add: keeps_def upsert_capability_set_def)
  moreover have "keeps k_processes uuid4" by (simp add: keeps_def uuid4_def)
  ultimately show ?thesis
    unfolding create_capability_set_def Let_def by (intro keeps_rules)
qed

lemma admit_row:
  assumes "admit aid s = (Inr ev, t)"
  shows "\<exists>a. get_action t aid = Some a \<and> a_state a = AAdmitted"
proof -
  obtain a a' r u where a: "get_action s aid = Some a" "apply_action_transition a AAdmitted = Inr (a', r)"
    and t: "t = upsert_action a' u"
    using assms
    by (auto simp: admit_def with_action_def move_action_def bind_op_eq_Inr_iff then_op_eq_Inr_iff
        split: option.splits sum.splits)
  have "a_action_id a = aid" using a(1) by (rule get_action_id)
  then have "a_action_id a' = aid" "a_state a' = AAdmitted" using apply_action_InrD(1) [OF a(2)] by auto
  then show ?thesis unfolding t get_upsert_action by (auto split: option.split)
qed

section \<open>The contract of the services\<close>

text \<open>Two control blocks of a process that differ at most in bookkeeping.\<close>

definition same_control :: "pcb \<Rightarrow> pcb \<Rightarrow> bool" where
  "same_control p q \<longleftrightarrow> p_state q = p_state p \<and> p_wait_condition q = p_wait_condition p \<and>
     p_priority q = p_priority p \<and> p_effective_priority q = p_effective_priority p \<and>
     p_pending_request_id q = p_pending_request_id p"

locale services = op_preorder R for R :: "kstate \<Rightarrow> kstate \<Rightarrow> bool" +
  assumes sv_emit: "quiet ty pl \<Longrightarrow> steps R (emit pid ty pl)"
    and sv_uuid: "steps R uuid4"
    and sv_clock: "steps R clock_tick"
    and sv_time: "k_now s \<le> now \<Longrightarrow> R s (s\<lparr>k_now := now\<rparr>)"
    and sv_transition: "wait = None \<or> target = BLOCKED \<Longrightarrow> steps R (transition pid target wait)"
    and sv_spawn: "steps R (spawn prog ns None parent grp pri st)"
    and sv_exited: "steps R (emit pid ''PROCESS_EXITED'' (PDict [(''exit_code'', VStr code), (''result_ref'', opt_str rref)]))"
    and sv_meta: "get_process s pid = Some p \<Longrightarrow> p_pid q = pid \<Longrightarrow> same_control p q \<Longrightarrow> R s (upsert_process q s)"
    and sv_program_state: "R s (save_program_state pid pst s)"
    and sv_checkpoint: "R s (snd (insert_checkpoint c s))"
    and sv_caps: "steps R (create_capability_set pid caps)"
    and sv_send: "steps R (send_signal dest sty source payload)"
    and sv_deliver: "steps R deliver_pending"
    and sv_waiters: "steps R (clear_waiters_for_pid pid)"
    and sv_acquire: "steps R (atomic_acquire pid claims ttl)"
    and sv_release: "steps R (release lids)"
    and sv_release_all: "steps R (release_all_for_pid pid)"
    and sv_reclaim: "steps R (reclaim_expired cutoff)"
    and sv_submit: "steps R (submit pid dev oper args sec rp idem timeout None claims)"
    and sv_admit: "steps R (admit aid)"
    and sv_reject: "steps R (reject aid reason)"
    and sv_run: "steps R (dispatch_action aid)"
    and sv_fail: "steps R (fail aid error)"
    and sv_uncertain: "steps R (mark_uncertain aid detail)"
    and sv_cancel: "steps R (cancel aid)"
    and sv_intent: "get_action s aid = Some a \<Longrightarrow> a_state a = AAdmitted \<Longrightarrow>
      R s (snd (mark_intent_durable aid lids (Some ts) s))"
    and sv_fail_running: "steps R (fail_if_running aid error)"
    and sv_uncertain_running: "steps R (mark_uncertain_if_running aid detail)"
    and sv_commit: "R s (snd (commit_if_fenced aid res (Some (k_now s)) s))"
    and sv_reserve: "R s (snd (reserve_retry_if_fenced aid (Some (k_now s)) s))"
begin

lemmas sv_moves = sv_admit sv_reject sv_run sv_fail sv_uncertain sv_cancel sv_fail_running sv_uncertain_running

lemma sv_mk_event: "steps R (mk_event pid ty pl)"
  unfolding mk_event_def mk_event_at_def by (intro steps_rules sv_uuid)

lemma sv_enforce: "steps R (enforce pid res oper)"
  unfolding enforce_def
  by (auto intro!: steps_rules sv_emit)

lemma sv_commit_then:
  assumes "\<And>x. steps R (f x)"
  shows "steps R (bind_op (gets k_now) (\<lambda>now. bind_op (commit_if_fenced aid res (Some now)) f))"
  by (rule stepsI) (simp add: bind_at sv_commit at_steps assms)

lemma sv_reserve_then:
  assumes "\<And>x. steps R (f x)"
  shows "steps R (bind_op (gets k_now) (\<lambda>now. bind_op (reserve_retry_if_fenced aid (Some now)) f))"
  by (rule stepsI) (simp add: bind_at sv_reserve at_steps assms)

lemma sv_suppress: "steps R m \<Longrightarrow> steps R (suppress_op m)"
  unfolding suppress_op_def by (intro steps_rules)

lemma sv_spawn_child: "steps R (spawn_child f parent ns grp caps)"
proof (rule stepsI)
  fix s :: kstate
  show "R s (snd (spawn_child f parent ns grp caps s))"
    unfolding spawn_child_def
  proof (rule bind_at)
    show "R s (snd (spawn (sp_program_id f) ns None parent grp 10 (Some (sp_initial_state f)) s))"
      by (rule at_steps) (rule sv_spawn)
    fix p t
    assume "spawn (sp_program_id f) ns None parent grp 10 (Some (sp_initial_state f)) s = (Inr p, t)"
    then have row: "get_process t (p_pid p) = Some p" by (rule spawn_row)
    let ?k = "\<lambda>cs. then_op (modify (upsert_process (p\<lparr>p_capability_set_id := cs_set_id cs\<rparr>)))
      (emit (p_pid p) ''SPAWN_COMPLETE'' (PDict
        [(''pid'', VStr (p_pid p)), (''program_id'', VStr (p_program_id p))]))"
    show "R t (snd (bind_op (create_capability_set (p_pid p) caps) ?k t))"
    proof (rule bind_at)
      show "R t (snd (create_capability_set (p_pid p) caps t))"
        by (rule at_steps) (rule sv_caps)
      fix cs u
      assume "create_capability_set (p_pid p) caps t = (Inr cs, u)"
      then have "get_process u (p_pid p) = Some p"
        using keepsD [OF keeps_processes_caps] row by (simp add: get_process_def)
      then have "R u (upsert_process (p\<lparr>p_capability_set_id := cs_set_id cs\<rparr>) u)"
        by (rule sv_meta) (simp_all add: same_control_def)
      then show "R u (snd (?k cs u))"
        by (simp add: R_trans at_steps [OF sv_emit])
    qed
  qed
qed

lemma sv_handle_spawn: "steps R (handle_spawn full pid f)"
  unfolding handle_spawn_def spawn_failed_def
  by (auto split: option.split intro!: steps_rules sv_spawn_child sv_mk_event sv_emit)

lemma sv_undo_admission: "steps R (undo_admission pid aid lids exc)"
  unfolding undo_admission_def
  by (auto split: option.split
      intro!: steps_rules sv_suppress sv_moves sv_release sv_waiters)

lemma sv_admit_intent: "steps R (then_op (admit aid) (mark_intent_durable aid lids (Some ts)))"
proof (rule stepsI)
  fix s :: kstate
  show "R s (snd (then_op (admit aid) (mark_intent_durable aid lids (Some ts)) s))"
    by (rule then_at) (use sv_intent admit_row at_steps [OF sv_admit] in blast)+
qed

lemma sv_admit_action: "steps R (admit_action pid f)"
  unfolding admit_action_def Let_def
  by (auto intro!: steps_rules sv_submit sv_acquire sv_moves sv_waiters
      sv_admit_intent sv_undo_admission sv_mk_event sv_emit)

lemma sv_handle_submit: "steps R (handle_submit_action strict rid pid f)"
  unfolding handle_submit_action_def
  by (auto intro!: steps_rules sv_enforce sv_admit_action sv_mk_event sv_emit simp: dict_get_def)

lemma sv_handle_checkpoint: "steps R (handle_checkpoint pid)"
proof (rule stepsI)
  fix s :: kstate
  have rows: "k_processes (snd (insert_checkpoint c u)) = k_processes u" for u c
    by (simp add: insert_checkpoint_def)
  have "R u (snd (then_op (insert_checkpoint c)
      (then_op (modify (upsert_process (p\<lparr>p_checkpoint_ref := Some i\<rparr>))) (emit pid ''CHECKPOINT_CREATED'' pl)) u))"
    if "get_process u pid = Some p" for u p c i pl
  proof (rule then_at [OF sv_checkpoint])
    fix x v assume "insert_checkpoint c u = (Inr x, v)"
    then have "get_process v pid = Some p" using rows [of c u] that by (simp add: get_process_def)
    then have "R v (upsert_process (p\<lparr>p_checkpoint_ref := Some i\<rparr>) v)"
      using get_process_mem by (intro sv_meta) (auto simp: same_control_def)
    then show "R v (snd (then_op (modify (upsert_process (p\<lparr>p_checkpoint_ref := Some i\<rparr>))) (emit pid ''CHECKPOINT_CREATED'' pl) v))"
      by (simp add: R_trans at_steps [OF sv_emit])
  qed
  moreover have "get_process (drawn s) pid = get_process s pid" by (simp add: get_process_def)
  moreover have "R s (drawn s)" using at_steps [OF sv_uuid] by (simp add: uuid4_run)
  ultimately show "R s (snd (handle_checkpoint pid s))"
    using R_trans by (auto simp: handle_checkpoint_def uuid4_run bind_op_def [of uuid4] R_refl split: option.split)
qed

lemma sv_handle_exit: "steps R (handle_exit pid code rref)"
proof -
  have "R s (case get_process s pid of None \<Rightarrow> s
      | Some p \<Rightarrow> upsert_process (p\<lparr>p_exit_code := Some code, p_result_ref := rref\<rparr>) s)" for s
    using get_process_mem [of s pid] by (auto split: option.split intro!: sv_meta R_refl simp: same_control_def)
  then show ?thesis
    unfolding handle_exit_def
    by (intro steps_rules steps_modify sv_transition sv_release_all sv_exited) simp_all
qed

lemma sv_handlers:
  "steps R (handle_inspect_action pid aid)" "steps R (handle_cancel_action pid aid)"
  "steps R (handle_acquire pid claims)" "steps R (handle_release pid lids)"
  "steps R (handle_wait pid c)" "steps R (handle_signal pid target ty pl)"
  "steps R (handle_restore pid cid)"
  unfolding handle_inspect_action_def handle_cancel_action_def handle_acquire_def handle_release_def
    handle_wait_def handle_signal_def handle_restore_def
  by (auto split: option.split intro!: steps_rules sv_mk_event sv_emit sv_moves sv_release sv_waiters
      sv_enforce sv_acquire sv_transition sv_send)

lemma sv_dispatch: "steps R (dispatch strict full req)"
  unfolding dispatch_def
  by (auto split: request_body.split intro!: steps_rules sv_handle_spawn sv_handle_submit
      sv_handle_checkpoint sv_handle_exit sv_handlers)

section \<open>Attempts and their outcomes\<close>

lemma sv_kernel_send: "steps R (kernel_send a ty key v)"
  unfolding kernel_send_def by (intro steps_rules sv_send)

lemma sv_outcomes:
  "steps R (fail_and_release a error serr)" "steps R (uncertain_and_release a detail)"
  "steps R (mark_uncertain_and_release a detail)" "steps R (fail_undispatched a error)"
  "steps R (retry_failed_exc a exc)"
  unfolding fail_and_release_def uncertain_and_release_def mark_uncertain_and_release_def
    fail_undispatched_def retry_failed_exc_def
  by (intro steps_rules sv_moves sv_release sv_kernel_send sv_moves sv_waiters)+

lemma sv_commit_or_stale: "steps R (commit_or_stale a out e1 e2)"
  unfolding commit_or_stale_def
  by (rule sv_commit_then)
    (auto intro!: steps_rules sv_outcomes sv_release sv_kernel_send)

lemma sv_retry_results:
  "steps R (retry_result_after_unknown a r)" "steps R (retry_result_after_exception a c e r)"
  unfolding retry_result_after_unknown_def retry_result_after_exception_def Let_def
  by (auto split: driver_status.split intro!: steps_rules sv_outcomes sv_commit_or_stale)

lemma sv_reserved_retry: "steps R m \<Longrightarrow> steps R (reserved_retry a m)"
  unfolding reserved_retry_def
  by (rule sv_reserve_then) (auto intro!: steps_rules sv_outcomes)

end

section \<open>Drivers and programs\<close>

text \<open>
  The rely: calls of drivers and of a program's step respect the relation, and while a program runs
  its step nobody changes the row of its process.
\<close>

locale kernel_rely = services R for R :: "kstate \<Rightarrow> kstate \<Rightarrow> bool" +
  fixes env :: env
  assumes driver_dispatch: "e_drivers env d = Some drv \<Longrightarrow> steps R (drv_dispatch drv aid oper args)"
    and driver_inspect: "e_drivers env d = Some drv \<Longrightarrow> steps R (drv_inspect drv aid)"
    and program_step: "e_programs env pid = Some prog \<Longrightarrow> steps R (prog st ev)"
    and program_alone: "e_programs env pid = Some prog \<Longrightarrow> keeps (\<lambda>s. get_process s pid) (prog st ev)"
begin

lemma sv_call_driver: "e_drivers env d = Some drv \<Longrightarrow> steps R (call_driver drv a)"
  unfolding call_driver_def by (intro steps_rules driver_dispatch)

lemma sv_inspect_after_unknown:
  "e_drivers env d = Some drv \<Longrightarrow> steps R (inspect_after_unknown a drv reason)"
  unfolding inspect_after_unknown_def Let_def
  by (auto split: sum.split driver_status.split
      intro!: steps_rules sv_outcomes sv_commit_or_stale sv_release driver_inspect)

lemma sv_retry_after_exception:
  assumes d: "e_drivers env d = Some drv"
  shows "steps R (retry_after_exception drv a ie)"
  unfolding retry_after_exception_def
  by (auto split: option.split sum.split intro!: sv_reserve_then steps_bind steps_then steps_gets
      steps_ret steps_Pair sv_outcomes sv_retry_results sv_release sv_call_driver [OF d])

lemma sv_after_dispatch:
  assumes d: "e_drivers env d = Some drv"
  shows "steps R (after_dispatch drv a r)" "steps R (after_dispatch_exception drv a exc)"
  unfolding after_dispatch_def after_dispatch_exception_def after_dispatch_unknown_def Let_def
  by (auto split: driver_status.split recovery_mode.split sum.split
      intro!: steps_bind steps_ret steps_Pair sv_reserved_retry sv_outcomes sv_commit_or_stale sv_retry_results
        sv_retry_after_exception [OF d] sv_inspect_after_unknown [OF d] sv_call_driver [OF d])

lemma sv_dispatch_one: "steps R (dispatch_one env a)"
  unfolding dispatch_one_def
  by (auto split: option.split sum.split intro!: steps_bind steps_then steps_gets sv_outcomes
      sv_moves sv_call_driver sv_after_dispatch)

lemma sv_recover_one: "steps R (recover_one env a)"
  unfolding recover_one_def recover_inspected_def recover_unknown_def
  by (auto split: option.split sum.split driver_status.split recovery_mode.split
      intro!: steps_bind steps_then steps_gets steps_try steps_ret steps_Pair sv_outcomes sv_release
        sv_reserved_retry sv_commit_or_stale sv_retry_results driver_inspect driver_dispatch)

lemma sv_actions_loops:
  "steps R (dispatch_pending_actions env)" "steps R (recover_incomplete_actions env)"
  unfolding dispatch_pending_actions_def recover_incomplete_actions_def
  by (intro steps_rules sv_dispatch_one sv_recover_one)+

lemma sv_to_ready: "steps R (to_ready pid)"
  unfolding to_ready_def by (intro steps_rules sv_transition) simp

lemma sv_fail_process: "quiet ty (PDict pl) \<Longrightarrow> steps R (fail_process pid ty pl)"
  unfolding fail_process_def
  by (intro steps_rules sv_emit sv_transition sv_release_all) simp_all

lemma sv_handle_request: "steps R (handle_request env pid req)"
  unfolding handle_request_def submit_step_def
  by (auto split: request_body.split option.split
      intro!: steps_rules sv_dispatch sv_to_ready sv_transition)

lemma sv_two_writes:
  "R s (f s) \<Longrightarrow> R (f s) (g (f s)) \<Longrightarrow> steps R m \<Longrightarrow>
     R s (snd (then_op (modify f) (then_op (modify g) m) s))"
  using at_steps [of m "g (f s)"] by (auto intro: R_trans)

lemma sv_after_step:
  assumes "get_process s (p_pid p) = Some p"
  shows "R s (snd (after_step env p r s))"
  unfolding after_step_def
proof (rule sv_two_writes)
  let ?s = "save_program_state (p_pid p) (st_new_state r) s"
  show "R s ?s" by (rule sv_program_state)
  have "get_process ?s (p_pid p) = Some p" using assms by (simp add: get_process_def)
  then show "R ?s (upsert_process (p\<lparr>p_event_cursor := next_offset ?s\<rparr>) ?s)"
    by (rule sv_meta) (simp_all add: same_control_def)
qed (auto split: option.split program_request.split list.split
    intro!: steps_rules sv_handle_request sv_fail_process sv_to_ready sv_dispatch sv_uuid)

lemma sv_run_program:
  assumes prog: "e_programs env (p_pid p) = Some prog" and row: "get_process s (p_pid p) = Some p"
  shows "R s (snd (run_program env prog p s))"
proof -
  let ?call = "\<lambda>st ev. try_op (bind_op (prog st ev) (\<lambda>r. ret (Inr r))) (\<lambda>e. ret (Inl e)) :: (kerror + step_result) kop"
  have st: "steps R (?call st ev)" for st ev by (intro steps_rules program_step [OF prog])
  have kp: "keeps (\<lambda>s. get_process s (p_pid p)) (?call st ev)" for st ev by (intro keeps_rules program_alone [OF prog])
  have "R s (snd (bind_op (?call st ev) (\<lambda>r. case r of
       Inl e \<Rightarrow> fail_process (p_pid p) ''PROGRAM_STEP_FAILED'' (info e)
     | Inr result \<Rightarrow> after_step env p result) s))" for st ev info
  proof (rule bind_at)
    show "R s (snd (?call st ev s))" using st by (rule at_steps)
    fix x t assume "?call st ev s = (Inr x, t)"
    then have "get_process t (p_pid p) = Some p" using keepsD [OF kp] row by metis
    then show "R t (snd ((case x of
       Inl e \<Rightarrow> fail_process (p_pid p) ''PROGRAM_STEP_FAILED'' (info e)
     | Inr result \<Rightarrow> after_step env p result) t))"
      by (auto split: sum.split intro!: sv_after_step at_steps [OF sv_fail_process])
  qed
  then show ?thesis unfolding run_program_def by simp
qed

lemma sv_run_process_step: "steps R (run_process_step env p)"
proof -
  have "steps R (bind_op (gets (\<lambda>s. get_process s (p_pid p))) (\<lambda>r. case r of
      None \<Rightarrow> ret () | Some current \<Rightarrow> run_program env prog current))"
    if prog: "e_programs env (p_pid p) = Some prog" for prog
  proof (rule stepsI)
    fix s
    have "R s (snd (run_program env prog q s))" if "get_process s (p_pid p) = Some q" for q
      using get_process_mem [OF that] that prog by (intro sv_run_program) auto
    then show "R s (snd (bind_op (gets (\<lambda>s. get_process s (p_pid p))) (\<lambda>r. case r of
        None \<Rightarrow> ret () | Some current \<Rightarrow> run_program env prog current) s))"
      by (simp add: R_refl split: option.split)
  qed
  then show ?thesis
    unfolding run_process_step_def
    by (auto split: option.split intro!: steps_bind steps_try steps_then steps_ret
        steps_raise steps_Pair sv_transition)
qed

lemma sv_recover_deadlock: "steps R (recover_deadlock c)"
  unfolding recover_deadlock_def Let_def
  by (auto intro!: steps_rules sv_emit sv_transition sv_release_all)

lemma sv_tick: "steps R (tick env)"
  unfolding tick_def
  by (intro steps_rules sv_clock sv_reclaim sv_deliver sv_recover_deadlock sv_actions_loops sv_run_process_step)

lemma sv_run_until_idle: "steps R (run_until_idle env n)"
proof (induction n)
  case 0
  then show ?case unfolding run_until_idle.simps by (rule steps_ret)
next
  case (Suc n)
  then show ?case
    unfolding run_until_idle.simps
    by (intro steps_bind steps_gets steps_if steps_then steps_ret sv_tick)
qed

lemma sv_kernel_spawn: "steps R (kernel_spawn env program_id prog ns st)"
  unfolding kernel_spawn_def
  by (auto split: option.split intro!: steps_rules sv_uuid sv_dispatch)

end

section \<open>Sessions\<close>

text \<open>
  Everything that can happen to a kernel: ticks, runs until idle, system calls, spawns and the
  passing of time, in any order and number, whether they end normally or with an exception. The
  environment may change from one step to the next (programs and drivers are registered).
\<close>

inductive session :: "(env \<Rightarrow> bool) \<Rightarrow> kstate \<Rightarrow> kstate \<Rightarrow> bool" for E s where
  session_start: "session E s s"
| session_tick: "session E s t \<Longrightarrow> E env \<Longrightarrow> session E s (snd (tick env t))"
| session_run: "session E s t \<Longrightarrow> E env \<Longrightarrow> session E s (snd (run_until_idle env n t))"
| session_call: "session E s t \<Longrightarrow> session E s (snd (dispatch strict full req t))"
| session_spawn: "session E s t \<Longrightarrow> E env \<Longrightarrow> session E s (snd (kernel_spawn env program_id prog ns st t))"
| session_time: "session E s t \<Longrightarrow> k_now t \<le> now \<Longrightarrow> session E s (t\<lparr>k_now := now\<rparr>)"

text \<open>Drivers and programs that do not write to the kernel's database.\<close>

definition detached :: "env \<Rightarrow> bool" where
  "detached env \<longleftrightarrow>
     (\<forall>d drv aid oper args s. e_drivers env d = Some drv \<longrightarrow>
        snd (drv_dispatch drv aid oper args s) = s \<and> snd (drv_inspect drv aid s) = s) \<and>
     (\<forall>pid prog st ev s. e_programs env pid = Some prog \<longrightarrow> snd (prog st ev s) = s)"

lemma default_env_detached: "detached (default_env ids)"
  by (auto simp: detached_def default_env_def model_driver_def device_driver_def split: if_splits)

context services
begin

lemma session_respects:
  assumes "session E s t" and E: "\<And>env. E env \<Longrightarrow> kernel_rely R env"
  shows "R s t"
  using assms(1)
proof (induction rule: session.induct)
  case (session_tick t env)
  then show ?case using R_trans at_steps [OF kernel_rely.sv_tick [OF E]] by blast
next
  case (session_run t env n)
  then show ?case using R_trans at_steps [OF kernel_rely.sv_run_until_idle [OF E]] by blast
next
  case (session_spawn t env program_id prog ns st)
  then show ?case using R_trans at_steps [OF kernel_rely.sv_kernel_spawn [OF E]] by blast
qed (blast intro: R_refl R_trans at_steps sv_dispatch sv_time)+

lemma detached_rely: "detached env \<Longrightarrow> kernel_rely R env"
  by unfold_locales (auto simp: detached_def keeps_def steps_def R_refl)

end

section \<open>Reachability by kernel steps\<close>

abbreviation kernel_session :: "kstate \<Rightarrow> kstate \<Rightarrow> bool" where
  "kernel_session \<equiv> session (kernel_rely kreach)"

interpretation ks: services kreach
proof unfold_locales
  show "steps kreach clock_tick"
    by (auto simp: steps_def clock_tick_def intro: kreach_step step_logical)
  show "kreach s (snd (insert_checkpoint c s))" for c s
    by (simp add: insert_checkpoint_def kr.R_refl kreach_step checkpoint)
  show "kreach s (upsert_process q s)" if "get_process s pid = Some p" "p_pid q = pid" "same_control p q" for s pid p q
    using that by (intro kreach_step process_meta [of s pid p]) (simp_all add: same_control_def)
qed (simp_all add: kr_journal kr_transition kr_spawn kr_create_capability_set kr_send_signal kr_deliver kr_waiters
    kr_atomic_acquire kr_release kr_release_all kr_reclaim kr_submit kr_action_moves kr_mark_intent kr_if_running
    kr_commit_now kr_reserve_now kreach_step step_time program_state)

text \<open>The kernel as constructed meets the rely: mock drivers touch no table.\<close>

interpretation dk: kernel_rely kreach "default_env ids" for ids
  by (rule ks.detached_rely) (rule default_env_detached)

lemma session_steps: "kernel_session s t \<Longrightarrow> ids_ok s \<Longrightarrow> ids_ok t \<and> kstep\<^sup>*\<^sup>* s t"
  using ks.session_respects by (simp add: kreach_def)

text \<open>A relation that every kernel step respects, and that composes, holds across sessions.\<close>

lemma session_relation:
  assumes "kernel_session s t" "ids_ok s"
    and step: "\<And>u v. ids_ok u \<Longrightarrow> kstep u v \<Longrightarrow> R u v" and "\<And>u. R u u" and trans: "\<And>u v w. R u v \<Longrightarrow> R v w \<Longrightarrow> R u w"
  shows "R s t"
proof -
  have "kstep\<^sup>*\<^sup>* s t" using session_steps [OF assms(1,2)] by blast
  then have "ids_ok t \<and> R s t"
  proof (induction rule: rtranclp_induct)
    case base
    then show ?case using assms by simp
  next
    case (step u v)
    then show ?case using assms(3) kstep_ids_ok trans by blast
  qed
  then show ?thesis by simp
qed

end
