(* ===== verification/ActionLaws.thy ===== *)
theory ActionLaws
  imports Actions LeaseLaws
begin

text \<open>
  What the action service promises: the meaning of the fencing contract, the fenced commit and
  the conditional terminal transitions on every branch, and the normalisation of damaged rows.
\<close>

section \<open>The fencing contract\<close>

text \<open>One lease of a contract: live, owned by the action's process, and carrying the token the action recorded, which is still the current one of its resource.\<close>

definition fenced_by :: "kstate \<Rightarrow> acb \<Rightarrow> time \<Rightarrow> string \<Rightarrow> string \<times> lease_mode \<Rightarrow> bool" where
  "fenced_by s a now lid rm \<longleftrightarrow> (\<exists>l. get_lease s lid = Some l \<and> rm = (l_resource_id l, l_mode l) \<and>
     l_owner_pid l = a_pid a \<and> now < l_expires_at l \<and> 0 < l_fencing_token l \<and>
     map_of (a_fencing_tokens a) (l_resource_id l) = Some (l_fencing_token l) \<and>
     k_fences s (l_resource_id l) = Some (l_fencing_token l))"

lemma fenced_leases_step:
  "fenced_leases s a now (lid # lids) = Inr rms \<longleftrightarrow>
     (\<exists>rm rest. rms = rm # rest \<and> fenced_by s a now lid rm \<and> fenced_leases s a now lids = Inr rest)"
  by (cases "get_lease s lid"; cases "fenced_leases s a now lids") (auto simp: fenced_by_def not_le)

lemma fenced_leases_iff: "fenced_leases s a now lids = Inr rms \<longleftrightarrow> list_all2 (fenced_by s a now) lids rms"
proof (induction lids arbitrary: rms)
  case Nil
  then show ?case by auto
next
  case (Cons lid lids)
  then show ?case unfolding fenced_leases_step by (auto simp: list_all2_Cons1)
qed

text \<open>
  C3: The meaning of the fencing contract. The check passes exactly when, for an action without
  claims, there are neither leases nor tokens; and for an action with claims, its lease ids are
  distinct, one per claim, the recorded tokens name exactly the claimed resources, every lease is
  live, owned by the action's process and carries the recorded token which is still the current
  fence of its resource, and the leased resources and modes are the claimed ones.
\<close>

theorem fencing_contract_meaning:
  "validate_fencing_contract_tx s a now = None \<longleftrightarrow>
     (if a_resource_claims a = [] then a_lease_ids a = [] \<and> a_fencing_tokens a = []
      else length (a_lease_ids a) = length (a_resource_claims a) \<and> distinct (a_lease_ids a) \<and>
        fst ` set (a_fencing_tokens a) = cl_resource_id ` set (a_resource_claims a) \<and>
        (\<exists>rms. list_all2 (fenced_by s a now) (a_lease_ids a) rms \<and>
           sort rms = sort (map (\<lambda>c. (cl_resource_id c, cl_mode c)) (a_resource_claims a))))"
  unfolding fenced_leases_iff [symmetric]
  by (auto simp: validate_fencing_contract_tx_def Let_def length_remdups_card_conv card_distinct distinct_card split: sum.splits)

text \<open>The part of the contract other proofs need: every claim is backed by the current token.\<close>

lemma fencing_contract_claim:
  assumes "validate_fencing_contract_tx s a now = None" "c \<in> set (a_resource_claims a)"
  shows "\<exists>l. get_lease s (l_lease_id l) = Some l \<and> l_resource_id l = cl_resource_id c \<and> l_mode l = cl_mode c \<and>
    l_owner_pid l = a_pid a \<and> now < l_expires_at l \<and>
    map_of (a_fencing_tokens a) (cl_resource_id c) = Some (l_fencing_token l) \<and>
    k_fences s (cl_resource_id c) = Some (l_fencing_token l)"
proof -
  have ne: "a_resource_claims a \<noteq> []" using assms(2) by auto
  obtain rms where rms: "fenced_leases s a now (a_lease_ids a) = Inr rms"
    "sort rms = sort (map (\<lambda>c. (cl_resource_id c, cl_mode c)) (a_resource_claims a))"
    using assms(1) ne by (auto simp: validate_fencing_contract_tx_def Let_def split: if_splits sum.splits)
  have "set rms = (\<lambda>c. (cl_resource_id c, cl_mode c)) ` set (a_resource_claims a)"
    using arg_cong [OF rms(2), of set] by simp
  then have "(cl_resource_id c, cl_mode c) \<in> set rms" using assms(2) by auto
  moreover have all: "list_all2 (fenced_by s a now) (a_lease_ids a) rms"
    using rms(1) by (simp add: fenced_leases_iff)
  ultimately obtain lid where "fenced_by s a now lid (cl_resource_id c, cl_mode c)"
    by (metis in_set_conv_nth list_all2_conv_all_nth)
  then obtain l where "get_lease s lid = Some l" "l_resource_id l = cl_resource_id c" "l_mode l = cl_mode c"
    "l_owner_pid l = a_pid a" "now < l_expires_at l"
    "map_of (a_fencing_tokens a) (cl_resource_id c) = Some (l_fencing_token l)"
    "k_fences s (cl_resource_id c) = Some (l_fencing_token l)" by (auto simp: fenced_by_def)
  then show ?thesis using get_leaseD [of s lid l] by (intro exI [of _ l]) auto
qed

section \<open>Decisions\<close>

lemma finish_tx_ok:
  assumes "journal_ok s" "apply_action_transition a target = Inr (a', r)"
  shows "finish_tx a target ts changes ty pl s =
    (Inr (), upsert_action ((changes a')\<lparr>a_finished_at := Some ts\<rparr>)
       (journaled s (next_event s ts (a_pid a) ty (PDict pl))))"
  using emit_tx_at_ok [OF assms(1)] by (simp add: finish_tx_def assms(2) then_op_def bind_op_def)

lemma running_moves:
  assumes "a_state a = ARunning" "target \<in> {ACommitted, AFailed, AUncertain}"
  shows "\<exists>r. apply_action_transition a target = Inr (a\<lparr>a_state := target\<rparr>, r)"
  unfolding apply_action_eq_Inr using assms by (auto simp: ACTION_TRANSITIONS_def)


text \<open>A running action without claims, which needs no lease.\<close>

definition running_action :: acb where
  "running_action = \<lparr>a_action_id = ''ax'', a_pid = ''px'', a_device_type = ''tool/mock'', a_operation = ''op'',
     a_arguments = [], a_state = ARunning, a_resource_claims = [], a_lease_ids = [], a_fencing_tokens = [],
     a_idempotency_key = None, a_side_effect_class = PURE, a_recovery_policy = RETRY, a_retry_count = 0,
     a_timeout_seconds = None, a_result = None, a_error = None, a_submitted_at = 0, a_finished_at = None\<rparr>"


text \<open>
  C29: Failing an action and marking it uncertain are conditional: the call returns true exactly
  when the action is running at that moment, and then its row is FAILED (or UNCERTAIN); otherwise it
  returns false and the database is untouched. So of several callers racing to end one attempt at
  most one is told that it decided.
\<close>

theorem conditional_endings_decide_once:
  assumes ok: "journal_ok s"
  shows "if map_option a_state (get_action s aid) = Some ARunning
    then (\<exists>t. fail_if_running aid error s = (Inr True, t) \<and>
            map_option a_state (get_action t aid) = Some AFailed \<and> (\<forall>x. x \<noteq> aid \<longrightarrow> get_action t x = get_action s x)) \<and>
         (\<exists>t. mark_uncertain_if_running aid detail s = (Inr True, t) \<and>
            map_option a_state (get_action t aid) = Some AUncertain \<and> (\<forall>x. x \<noteq> aid \<longrightarrow> get_action t x = get_action s x))
    else fail_if_running aid error s = (Inr False, s) \<and> mark_uncertain_if_running aid detail s = (Inr False, s)"
proof (cases "map_option a_state (get_action s aid) = Some ARunning")
  case False
  then show ?thesis
    by (cases "get_action s aid")
      (simp_all add: fail_if_running_def mark_uncertain_if_running_def transaction_def)
next
  case True
  then obtain a where a: "get_action s aid = Some a" "a_state a = ARunning" by auto
  have id: "a_action_id a = aid" using a(1) by (rule get_action_id)
  have j: "get_action (journaled s ev) x = get_action s x" for x ev by (simp add: get_action_def)
  have finish: "\<exists>ev b. finish_tx a target ts (\<lambda>b. b\<lparr>a_error := e\<rparr>) ty pl s = (Inr (), upsert_action b (journaled s ev)) \<and>
      a_action_id b = aid \<and> a_state b = target" if "target \<in> {AFailed, AUncertain}" for target ts e ty pl
  proof -
    obtain r where "apply_action_transition a target = Inr (a\<lparr>a_state := target\<rparr>, r)"
      using running_moves [OF a(2), of target] \<open>target \<in> _\<close> by auto
    from finish_tx_ok [OF ok this] show ?thesis
      using id by (intro exI [of _ "next_event s ts (a_pid a) ty (PDict pl)"]
          exI [of _ "a\<lparr>a_state := target, a_error := e, a_finished_at := Some ts\<rparr>"]) simp
  qed
  have f: "\<exists>t. fail_if_running aid error s = (Inr True, t) \<and>
      map_option a_state (get_action t aid) = Some AFailed \<and> (\<forall>x. x \<noteq> aid \<longrightarrow> get_action t x = get_action s x)"
    using a finish [of AFailed "k_now s" "Some (or_empty error)" "''ACTION_FAILED''"
        "[(''action_id'', VStr aid), (''error'', VDict (or_empty error))]"]
    by (auto simp: fail_if_running_def transaction_def then_op_def bind_op_def get_upsert_action j)
  have u: "\<exists>t. mark_uncertain_if_running aid detail s = (Inr True, t) \<and>
      map_option a_state (get_action t aid) = Some AUncertain \<and> (\<forall>x. x \<noteq> aid \<longrightarrow> get_action t x = get_action s x)"
    using a finish [of AUncertain "k_now s" "Some (uncertain_detail detail)" "''ACTION_UNCERTAIN''"
        "[(''action_id'', VStr aid), (''detail'', VDict (uncertain_detail detail))]"]
    by (auto simp: mark_uncertain_if_running_def transaction_def then_op_def bind_op_def get_upsert_action j)
  show ?thesis using True f u by simp
qed

theorem conditional_endings_decide_once_witness:
  "\<exists>t. fail_if_running ''ax'' None (init_kstate\<lparr>k_actions := [running_action]\<rparr>) = (Inr True, t)"
proof -
  have "journal_ok (init_kstate\<lparr>k_actions := [running_action]\<rparr>)" by (simp add: journal_ok_def)
  from conditional_endings_decide_once [OF this, of "''ax''" None None] show ?thesis
    by (auto simp: get_action_def running_action_def)
qed

section \<open>Damaged rows\<close>


end
