(* ===== verification/Safety.thy ===== *)
theory Safety
  imports KernelSteps ActionLaws
begin

text \<open>
  Safety of the kernel as a whole: what holds across every session, that is, after any sequence of
  ticks, system calls and spawns, whatever drivers and programs do in between and however the calls
  end. Each property is shown for the single kernel steps and carried to sessions.
\<close>

section \<open>Single steps\<close>

text \<open>What a step may do to the row of an action.\<close>

definition action_fixed :: "acb \<Rightarrow> acb \<Rightarrow> bool" where
  "action_fixed a b \<longleftrightarrow> a_action_id b = a_action_id a \<and> a_pid b = a_pid a \<and> a_device_type b = a_device_type a \<and>
     a_operation b = a_operation a \<and> a_arguments b = a_arguments a \<and>
     a_side_effect_class b = a_side_effect_class a \<and> a_recovery_policy b = a_recovery_policy a \<and>
     a_resource_claims b = a_resource_claims a"

definition action_next :: "acb \<Rightarrow> acb \<Rightarrow> bool" where
  "action_next a b \<longleftrightarrow> b = a \<or>
     (a_state a \<notin> TERMINAL_ACTION_STATES \<and> action_fixed a b \<and>
      ((a_state a, a_state b) \<in> action_edges \<and> a_retry_count b = a_retry_count a \<or>
       a_state b = a_state a \<and> a_retry_count b = a_retry_count a \<or>
       a_state b = ARunning \<and> a_state a = ARunning \<and> a_retry_count a < 1 \<and> a_retry_count b = a_retry_count a + 1 \<and>
       a_side_effect_class a = PURE \<and> a_recovery_policy a = RETRY))"

lemma action_fixed_merge:
  "action_fixed a (merge_acb a (acb_row b)) \<longleftrightarrow> a_resource_claims b = a_resource_claims a"
  by (simp add: action_fixed_def merge_acb_def acb_row_def)

lemma merge_resource_claims [simp]: "a_resource_claims (merge_acb old new) = a_resource_claims new"
  by (simp add: merge_acb_def)

lemma upsert_capability_keeps:
  assumes "upsert_capability_set cs s = (Inr (), t)"
  shows "k_actions t = k_actions s" "k_processes t = k_processes s" "k_leases t = k_leases s"
    "k_fences t = k_fences s" "k_signals t = k_signals s" "k_journal t = k_journal s"
    "k_uuids t = k_uuids s" "k_next_offset t = k_next_offset s" "k_now t = k_now s"
  using assms by (auto simp: upsert_capability_set_def split: if_splits)

lemma signal_sel [simp]:
  "k_actions (upsert_signal g s) = k_actions s" "k_actions (set_consumed i s) = k_actions s"
  "k_processes (upsert_signal g s) = k_processes s" "k_processes (set_consumed i s) = k_processes s"
  "k_leases (upsert_signal g s) = k_leases s" "k_leases (set_consumed i s) = k_leases s"
  "k_fences (upsert_signal g s) = k_fences s" "k_fences (set_consumed i s) = k_fences s"
  "k_journal (upsert_signal g s) = k_journal s" "k_journal (set_consumed i s) = k_journal s"
  "k_uuids (upsert_signal g s) = k_uuids s" "k_uuids (set_consumed i s) = k_uuids s"
  "k_next_offset (upsert_signal g s) = k_next_offset s" "k_next_offset (set_consumed i s) = k_next_offset s"
  "k_now (upsert_signal g s) = k_now s" "k_now (set_consumed i s) = k_now s"
  by (simp_all add: upsert_signal_def set_consumed_def)

lemma action_next_intros:
  "action_next a a"
  "a_state a \<notin> TERMINAL_ACTION_STATES \<Longrightarrow> action_fixed a b \<Longrightarrow> (a_state a, a_state b) \<in> action_edges \<Longrightarrow>
     a_retry_count b = a_retry_count a \<Longrightarrow> action_next a b"
  "a_state a \<notin> TERMINAL_ACTION_STATES \<Longrightarrow> action_fixed a b \<Longrightarrow> a_state b = a_state a \<Longrightarrow>
     a_retry_count b = a_retry_count a \<Longrightarrow> action_next a b"
  "action_fixed a b \<Longrightarrow> a_state a = ARunning \<Longrightarrow> a_state b = ARunning \<Longrightarrow> a_retry_count a < 1 \<Longrightarrow>
     a_retry_count b = a_retry_count a + 1 \<Longrightarrow> a_side_effect_class a = PURE \<Longrightarrow> a_recovery_policy a = RETRY \<Longrightarrow>
     action_next a b"
  by (simp_all add: action_next_def terminal_action_iff)

text \<open>A step that rewrites an existing row rewrites that row only.\<close>

lemma action_rewrite:
  assumes "get_action s x = Some c" "a_action_id b = a_action_id c" "action_next c (merge_acb c (acb_row b))"
    "get_action s aid = Some a"
  shows "\<exists>b'. get_action (upsert_action b s) aid = Some b' \<and> action_next a b'"
  using assms get_action_id [OF assms(1)] by (auto simp: get_upsert_action action_next_intros(1))

lemma kstep_action:
  assumes "kstep s t" "get_action s aid = Some a"
  shows "\<exists>b. get_action t aid = Some b \<and> action_next a b"
  using assms
proof (induction rule: kstep.induct)
  case (step_journal s t)
  then show ?case by (simp add: get_action_journal action_next_def)
next
  case (action_new b s)
  then have "aid \<noteq> a_action_id b" using get_action_mem [OF action_new(5)] by auto
  then show ?case using action_new(5) by (simp add: get_upsert_action action_next_def)
next
  case (action_move s x c target c' reason fin err)
  have c': "c' = c\<lparr>a_state := target\<rparr>" "(a_state c, target) \<in> action_edges" "a_state c \<notin> TERMINAL_ACTION_STATES"
    using apply_action_InrD [OF action_move(2)] by auto
  have "action_next c (merge_acb c (acb_row (c'\<lparr>a_error := err, a_finished_at := fin\<rparr>)))"
    by (rule action_next_intros(2)) (simp_all add: c' action_fixed_merge del: set_map)
  then show ?case using action_move(1,4) by (intro action_rewrite) (simp_all add: c'(1))
next
  case (action_commit s x c fin res)
  have "action_next c (merge_acb c (acb_row (c\<lparr>a_state := ACommitted, a_result := res, a_finished_at := fin\<rparr>)))"
    using action_commit(2)
    by (intro action_next_intros(2)) (simp_all add: action_fixed_merge terminal_action_iff ACTION_TRANSITIONS_def)
  then show ?case using action_commit(1,4) by (intro action_rewrite) simp_all
next
  case (action_intent s x c ts lids)
  have "action_next c (merge_acb c (acb_row (c\<lparr>a_lease_ids := lids, a_fencing_tokens := ts\<rparr>)))"
    using action_intent(2) by (intro action_next_intros(3)) (simp_all add: action_fixed_merge terminal_action_iff)
  then show ?case using action_intent(1,3) by (intro action_rewrite) simp_all
next
  case (action_retry s x c)
  have "action_next c (merge_acb c (acb_row (c\<lparr>a_retry_count := a_retry_count c + 1\<rparr>)))"
    using action_retry(2,3)
    by (intro action_next_intros(4)) (auto simp: action_fixed_merge retry_guard_def split: if_splits)
  then show ?case using action_retry(1,5) by (intro action_rewrite) simp_all
next
  case (capabilities cs s t)
  then show ?case by (simp add: get_action_def upsert_capability_keeps(1) action_next_def)
qed (simp_all add: get_action_def action_next_def)

text \<open>What any number of steps may do to it.\<close>

definition action_history :: "acb \<Rightarrow> acb \<Rightarrow> bool" where
  "action_history a b \<longleftrightarrow> action_fixed a b \<and> (a_state a, a_state b) \<in> action_edges\<^sup>* \<and>
     (a_retry_count b = a_retry_count a \<or> a_retry_count a < a_retry_count b \<and> a_retry_count b \<le> 1 \<and>
        a_side_effect_class a = PURE \<and> a_recovery_policy a = RETRY)"

lemma action_history_refl: "action_history a a"
  by (simp add: action_history_def action_fixed_def)

lemma action_history_trans:
  assumes "action_history a b" "action_history b c"
  shows "action_history a c"
proof -
  have "(a_state a, a_state c) \<in> action_edges\<^sup>*"
    using assms unfolding action_history_def by (blast intro: rtrancl_trans)
  moreover have "action_fixed a c" "a_side_effect_class b = a_side_effect_class a" "a_recovery_policy b = a_recovery_policy a"
    using assms by (simp_all add: action_history_def action_fixed_def)
  ultimately show ?thesis using assms unfolding action_history_def by auto
qed

lemma action_next_history:
  assumes "action_next a b"
  shows "action_history a b"
proof -
  have edge: "(a_state a, a_state b) \<in> action_edges\<^sup>*"
    using assms unfolding action_next_def by (metis r_into_rtrancl rtrancl.rtrancl_refl)
  have fixed: "action_fixed a b" using assms by (auto simp: action_next_def action_fixed_def)
  have "a_retry_count b = a_retry_count a \<or> a_retry_count a < a_retry_count b \<and> a_retry_count b \<le> 1 \<and>
        a_side_effect_class a = PURE \<and> a_recovery_policy a = RETRY"
    using assms unfolding action_next_def by (elim disjE conjE) auto
  then show ?thesis using edge fixed unfolding action_history_def by blast
qed

lemma kstep_action_new:
  assumes "kstep s t" "get_action s aid = None" "get_action t aid = Some b"
  shows "a_state b = ASubmitted \<and> a_retry_count b = 0"
  using assms
proof (induction rule: kstep.induct)
  case (step_journal s t)
  then show ?case by (simp add: get_action_journal)
next
  case (action_new a s)
  then show ?case by (auto simp: get_upsert_action split: if_splits)
next
  case (action_move s x c target c' reason fin err)
  then show ?case
    using apply_action_InrD(1) [OF action_move(2)] get_action_id [OF action_move(1)]
    by (auto simp: get_upsert_action split: if_splits)
next
  case (capabilities cs s t)
  then show ?case by (simp add: get_action_def upsert_capability_keeps(1))
next
  case (action_commit s x c fin res)
  then show ?case using get_action_id [OF action_commit(1)] by (auto simp: get_upsert_action split: if_splits)
next
  case (action_intent s x c ts lids)
  then show ?case using get_action_id [OF action_intent(1)] by (auto simp: get_upsert_action split: if_splits)
next
  case (action_retry s x c)
  then show ?case using get_action_id [OF action_retry(1)] by (auto simp: get_upsert_action split: if_splits)
qed (simp_all add: get_action_def)

text \<open>A step that commits an action does so under a valid fence.\<close>

lemma kstep_commits:
  assumes "kstep s t" "get_action t aid = Some b" "a_state b = ACommitted"
    and "\<forall>a. get_action s aid = Some a \<longrightarrow> a_state a \<noteq> ACommitted"
  shows "\<exists>a. get_action s aid = Some a \<and> a_state a = ARunning \<and>
    validate_fencing_contract_tx s a (k_now s) = None"
  using assms
proof (induction rule: kstep.induct)
  case (step_journal s t)
  then show ?case by (simp add: get_action_journal)
next
  case (action_new a s)
  then show ?case by (auto simp: get_upsert_action split: if_splits option.splits)
next
  case (action_move s x c target c' reason fin err)
  then show ?case
    using apply_action_InrD(1) [OF action_move(2)] get_action_id [OF action_move(1)]
    by (auto simp: get_upsert_action split: if_splits)
next
  case (capabilities cs s t)
  then show ?case by (simp add: get_action_def upsert_capability_keeps(1))
next
  case (action_commit s x c fin res)
  then show ?case using get_action_id [OF action_commit(1)] by (auto simp: get_upsert_action split: if_splits)
next
  case (action_intent s x c ts lids)
  then show ?case using get_action_id [OF action_intent(1)] by (auto simp: get_upsert_action split: if_splits)
next
  case (action_retry s x c)
  then show ?case using get_action_id [OF action_retry(1)] by (auto simp: get_upsert_action split: if_splits)
qed (simp_all add: get_action_def)

text \<open>What a step may do to the row of a process.\<close>

lemma merge_pcb_state [simp]: "p_state (merge_pcb old new) = p_state new" "p_state (pcb_row p) = p_state p"
  "p_pid (merge_pcb old new) = p_pid old" "p_pid (pcb_row p) = p_pid p"
  by (simp_all add: merge_pcb_def pcb_row_def)

lemma kstep_process:
  assumes "kstep s t" "get_process s pid = Some p"
  shows "\<exists>q. get_process t pid = Some q \<and> (p_state q = p_state p \<or> (p_state p, p_state q) \<in> process_edges)"
  using assms
proof (induction rule: kstep.induct)
  case (step_journal s t)
  then show ?case by (simp add: get_process_journal)
next
  case (process_new q s)
  then have "pid \<noteq> p_pid q" using get_process_mem [OF process_new(5)] by auto
  then show ?case using process_new(5) by (simp add: get_upsert_process)
next
  case (process_move s x c target wait c' reason)
  have id: "p_pid c = x" using get_process_mem [OF process_move(1)] by blast
  then show ?case
    using apply_process_InrD(1,2,3) [OF process_move(2)] process_move(1,3)
    by (cases "pid = x") (simp_all add: get_upsert_process del: set_map)
next
  case (process_meta s x c q)
  then show ?case by (cases "pid = x") (simp_all add: get_upsert_process)
next
  case (capabilities cs s t)
  then show ?case by (simp add: get_process_def upsert_capability_keeps(2))
qed (simp_all add: get_process_def)

section \<open>Invariants\<close>

lemma kstep_lease_inv: "kstep s t \<Longrightarrow> lease_inv s \<Longrightarrow> lease_inv t"
proof (induction rule: kstep.induct)
  case (step_journal s t)
  then show ?case by (elim lease_inv_mono) (simp_all add: journal_step_sel)
next
  case (lease_grant s l)
  then show ?case by (intro lease_inv_granted) (simp_all add: used_def)
next
  case (lease_delete s P)
  then show ?case by (intro lease_inv_filter)
next
  case (lease_renew s lid e)
  then show ?case by (intro lease_inv_extend)
next
  case (capabilities cs s t)
  then show ?case by (intro lease_inv_mono [OF capabilities(2)]) (simp_all add: upsert_capability_keeps [OF capabilities(1)])
qed (erule lease_inv_mono; simp)+

lemma journal_ok_cong:
  "journal_ok s \<Longrightarrow> k_journal t = k_journal s \<Longrightarrow> k_next_offset t = k_next_offset s \<Longrightarrow> k_uuids t = k_uuids s \<Longrightarrow> journal_ok t"
  by (simp add: journal_ok_def)

lemma kstep_journal: "kstep s t \<Longrightarrow> (\<exists>evs. k_journal t = k_journal s @ evs) \<and> (journal_ok s \<longrightarrow> journal_ok t)"
proof (induction rule: kstep.induct)
  case (step_journal s t)
  then show ?case by (simp add: journal_step_def)
next
  case (capabilities cs s t)
  then show ?case by (auto simp: upsert_capability_keeps elim!: journal_ok_cong)
qed (auto elim!: journal_ok_cong)

lemma kstep_fence:
  assumes "kstep s t" "k_fences s r = Some f"
  shows "\<exists>g. k_fences t r = Some g \<and> f \<le> g"
  using assms
proof (induction rule: kstep.induct)
  case (step_journal s t)
  then show ?case by (simp add: journal_step_sel)
next
  case (lease_grant s l)
  then show ?case
    by (auto simp: grantable_def next_fence_def split: if_splits)
next
  case (capabilities cs s t)
  then show ?case by (simp add: upsert_capability_keeps)
qed auto

text \<open>Leases of a process that has ended: none is added.\<close>

lemma kstep_lease_owner:
  assumes "kstep s t" "get_process s pid = Some p" "p_state p \<in> TERMINAL_PROCESS_STATES"
    and "l \<in> set (k_leases t)" "l_owner_pid l = pid"
  shows "\<exists>l' \<in> set (k_leases s). l_lease_id l' = l_lease_id l \<and> l_owner_pid l' = pid"
  using assms
proof (induction rule: kstep.induct)
  case (step_journal s t)
  then show ?case by (auto simp: journal_step_sel)
next
  case (lease_grant s x)
  then show ?case by (auto simp: owner_open_def)
next
  case (lease_renew s lid e)
  then show ?case by (auto simp: set_tbl_update split: if_splits)
next
  case (capabilities cs s t)
  then show ?case by (auto simp: upsert_capability_keeps)
qed auto

text \<open>Signals: the content of a row never changes and consumption is permanent.\<close>

definition signal_next :: "signal \<Rightarrow> signal \<Rightarrow> bool" where
  "signal_next g h \<longleftrightarrow> (h = g \<or> h = g\<lparr>sg_consumed := True\<rparr>)"

abbreviation get_signal :: "kstate \<Rightarrow> string \<Rightarrow> signal option" where
  "get_signal s i \<equiv> tbl_get sg_signal_id (k_signals s) i"

lemma get_consumed:
  "get_signal (set_consumed i s) j =
     map_option (\<lambda>g. if sg_signal_id g = i then g\<lparr>sg_consumed := True\<rparr> else g) (get_signal s j)"
  by (simp add: set_consumed_def tbl_get_update)

lemma kstep_signal:
  assumes "kstep s t" "get_signal s i = Some g"
  shows "\<exists>h. get_signal t i = Some h \<and> signal_next g h"
  using assms
proof (induction rule: kstep.induct)
  case (step_journal s t)
  then show ?case by (simp add: journal_step_sel signal_next_def)
next
  case (signal_new h s)
  have "sg_signal_id g = i" "g \<in> set (k_signals s)"
    using signal_new(4) by (auto dest: tbl_get_key tbl_get_mem)
  then have "i \<noteq> sg_signal_id h" using signal_new(1) by (metis image_eqI)
  then show ?case
    using signal_new(1,4) by (simp add: upsert_signal_def tbl_replace_fresh tbl_get_append signal_next_def)
next
  case (signal_consume s j)
  then show ?case by (simp add: get_consumed signal_next_def)
next
  case (capabilities cs s t)
  then show ?case by (simp add: upsert_capability_keeps signal_next_def)
qed (simp_all add: signal_next_def)

lemma kstep_retries:
  assumes "kstep s t" "\<forall>aid a. get_action s aid = Some a \<longrightarrow> a_retry_count a = 0 \<or>
      a_retry_count a = 1 \<and> a_side_effect_class a = PURE \<and> a_recovery_policy a = RETRY"
    and "get_action t aid = Some b"
  shows "a_retry_count b = 0 \<or> a_retry_count b = 1 \<and> a_side_effect_class b = PURE \<and> a_recovery_policy b = RETRY"
proof (cases "get_action s aid")
  case None
  then show ?thesis using kstep_action_new [OF assms(1) None assms(3)] by simp
next
  case (Some a)
  then have "action_next a b" using kstep_action [OF assms(1) Some] assms(3) by auto
  moreover have "a_retry_count a = 0 \<or>
      a_retry_count a = 1 \<and> a_side_effect_class a = PURE \<and> a_recovery_policy a = RETRY"
    using assms(2) Some by blast
  ultimately show ?thesis by (auto simp: action_next_def action_fixed_def)
qed

section \<open>A sample state\<close>

text \<open>Identifiers with a letter that is no hexadecimal digit are never drawn.\<close>

lemma uuid_hex_chars: "set (uuid_hex n) \<subseteq> set ''0123456789abcdef''"
proof (induction n rule: less_induct)
  case (less n)
  have d: "hex_digit k \<in> set ''0123456789abcdef''" if "k < 16" for k
    unfolding hex_digit_def using that by (intro nth_mem) simp
  show ?case
    using less.IH [of "n div 16"] d [of n] d [of "n mod 16"]
    by (subst uuid_hex.simps) auto
qed

lemma used_name: "CHR ''x'' \<in> set i \<Longrightarrow> used s i"
  using uuid_hex_chars by (auto simp: used_def)

text \<open>
  A process that has exited with a lease still held, a committed action of it, a running one, and
  a consumed signal.
\<close>

definition sample :: kstate where
  "sample = init_kstate\<lparr>
     k_processes := [(new_pcb ''px'' ''prog'' ''cs'' None ''default'' ''default'' 10 0)\<lparr>p_state := EXITED\<rparr>],
     k_actions := [running_action\<lparr>a_action_id := ''cx'', a_state := ACommitted\<rparr>, running_action],
     k_leases := [\<lparr>l_lease_id = ''lx'', l_resource_id = ''r'', l_owner_pid = ''px'', l_mode = Exclusive,
       l_fencing_token = 1, l_acquired_at = 0, l_expires_at = 9, l_renewable = True, l_revocable = True\<rparr>],
     k_fences := [''r'' \<mapsto> 1],
     k_signals := [\<lparr>sg_signal_id = ''sx'', sg_target_pid = ''px'', sg_signal_type = ''T'', sg_source_pid = None,
       sg_payload = [], sg_created_at = 0, sg_consumed = True\<rparr>]\<rparr>"

lemma sample_ok: "ids_ok sample" "lease_inv sample" "journal_ok sample"
proof -
  show "ids_ok sample"
    by (auto simp: ids_ok_def keys_ok_def sample_def running_action_def new_pcb_def intro!: used_name)
  show "lease_inv sample"
    using used_name [of "''lx''" init_kstate] by (auto simp: lease_inv_def sample_def used_def)
  show "journal_ok sample" by (simp add: journal_ok_def sample_def)
qed

text \<open>A session of two ticks with time passing in between.\<close>

definition sample_end :: kstate where
  "sample_end = snd (tick (default_env (\<lambda>_. [])) ((snd (tick (default_env (\<lambda>_. [])) sample))\<lparr>k_now :=
     k_now (snd (tick (default_env (\<lambda>_. [])) sample)) + 10\<rparr>))"

lemma sample_session: "kernel_session sample sample_end"
  unfolding sample_end_def
  by (intro session_tick session_time session_start dk.kernel_rely_axioms) simp

end
