(* ===== verification/CapabilityLaws.thy ===== *)
theory CapabilityLaws
  imports Capabilities LeaseLaws
begin

text \<open>
  What capability checks guarantee: grants add exactly what they name, enforcement refuses exactly
  what the check refuses, and the delegation check is sound for the patterns it is meant for, but
  not for patterns with a question mark.
\<close>

section \<open>Grants\<close>

definition caps_ok :: "kstate \<Rightarrow> bool" where
  "caps_ok s \<longleftrightarrow> (\<forall>n \<ge> k_uuids s. uuid_hex n \<notin> cs_set_id ` set (k_capability_sets s))"

text \<open>
  C33: Granting adds exactly the granted access: afterwards the process may do what it could do
  before and what the new capability allows, nothing else, and no other process is affected.
\<close>

theorem grant_adds_exactly:
  assumes "caps_ok s"
  shows "\<exists>t. grant pid cap s = (Inr (), t) \<and> (\<forall>q res oper. check_capability t q res oper \<longleftrightarrow>
    check_capability s q res oper \<or> q = pid \<and> cap_allows cap res oper)"
proof (cases "\<exists>cs. get_capability_set s pid = Some cs \<and> (\<exists>c \<in> set (cs_capabilities cs). same_grant c cap)")
  case True
  then obtain cs c where cs: "get_capability_set s pid = Some cs" "c \<in> set (cs_capabilities cs)" "same_grant c cap" by blast
  have "grant pid cap s = (Inr (), s)" using cs by (auto simp: grant_def transaction_def Let_def)
  moreover have "check_capability s pid res oper" if "cap_allows cap res oper" for res oper
    using cs that same_grant_allows [OF cs(3)] by (auto simp: check_capability_def capability_set_check_def)
  ultimately show ?thesis by auto
next
  case False
  define old where "old = (case get_capability_set s pid of None \<Rightarrow> [] | Some cs \<Rightarrow> cs_capabilities cs)"
  define new where "new = \<lparr>cs_set_id = uuid_hex (k_uuids s), cs_pid = pid, cs_capabilities = old @ [cap]\<rparr>"
  let ?s = "s\<lparr>k_uuids := Suc (k_uuids s)\<rparr>"
  have nosame: "\<not> (\<exists>c \<in> set old. same_grant c cap)" using False by (cases "get_capability_set s pid") (auto simp: old_def)
  have "cs_set_id new \<notin> cs_set_id ` set (k_capability_sets ?s)"
    using assms by (simp add: caps_ok_def new_def)
  then obtain t where t: "upsert_capability_set new ?s = (Inr (), t)"
    by (auto simp: upsert_capability_set_def)
  have "grant pid cap s = (Inr (), t)"
    using nosame t unfolding new_def old_def
    by (cases "get_capability_set s pid") (auto simp: grant_def transaction_def Let_def bind_op_def uuid4_def)
  moreover have "check_capability t q res oper \<longleftrightarrow> check_capability s q res oper \<or> q = pid \<and> cap_allows cap res oper" for q res oper
    unfolding check_upsert [OF t]
    by (cases "get_capability_set s pid")
      (auto simp: new_def old_def check_capability_def capability_set_check_def get_capability_set_def)
  ultimately show ?thesis by blast
qed

theorem grant_adds_exactly_witness:
  "\<exists>t. grant ''p'' (template ''c'' ''device:*'' [''invoke'']) init_kstate = (Inr (), t) \<and>
     check_capability t ''p'' ''device:x'' ''invoke'' \<and> \<not> check_capability t ''q'' ''device:x'' ''invoke''"
proof -
  have "caps_ok init_kstate" by (simp add: caps_ok_def)
  from grant_adds_exactly [OF this, of "''p''" "template ''c'' ''device:*'' [''invoke'']"] obtain t where
    t: "grant ''p'' (template ''c'' ''device:*'' [''invoke'']) init_kstate = (Inr (), t)"
    "\<forall>q res oper. check_capability t q res oper \<longleftrightarrow> check_capability init_kstate q res oper \<or>
       q = ''p'' \<and> cap_allows (template ''c'' ''device:*'' [''invoke'']) res oper" by blast
  have "cap_allows (template ''c'' ''device:*'' [''invoke'']) ''device:x'' ''invoke''" by code_simp
  moreover have "\<not> check_capability init_kstate ''q'' ''device:x'' ''invoke''"
    by (simp add: check_capability_def get_capability_set_def)
  ultimately show ?thesis using t by auto
qed

section \<open>Enforcement\<close>

text \<open>
  C34: Enforcement agrees with the check: a permitted access passes and writes nothing; a refused one
  raises the denial and leaves exactly one event, the denial record of that process, in the journal,
  changing nothing else.
\<close>

theorem enforce_agrees_with_check:
  assumes "journal_ok s"
  shows "if check_capability s pid res oper then enforce pid res oper s = (Inr (), s)
    else \<exists>ev. enforce pid res oper s = (Inl (CapabilityDenied pid res oper), journaled s ev) \<and>
      ev_pid ev = pid \<and> ev_event_type ev = ''CAPABILITY_DENIED''"
  using emit_ok [OF assms] by (auto simp: enforce_def then_op_def bind_op_def)

theorem enforce_agrees_with_check_witness:
  "\<exists>ev. enforce ''p'' ''device:x'' ''invoke'' init_kstate =
     (Inl (CapabilityDenied ''p'' ''device:x'' ''invoke''), journaled init_kstate ev)"
  using enforce_agrees_with_check [of init_kstate "''p''" "''device:x''" "''invoke''"]
  by (auto simp: check_capability_def get_capability_set_def)

section \<open>Delegation\<close>

text \<open>
  C35: The delegation check is sound for prefix-style patterns: if it accepts a child, and no pattern
  of parent or child contains a bracket and no pattern of the parent a question mark, then every
  access the child's capabilities allow is allowed to the parent.
\<close>

theorem verify_child_subset_sound:
  assumes ok: "verify_child_subset s parent_pid child_pid"
    and simple: "\<And>cs c. get_capability_set s child_pid = Some cs \<Longrightarrow> c \<in> set (cs_capabilities cs) \<Longrightarrow>
      bracket_free (cp_resource_pattern c)"
    and parent: "\<And>cs c. get_capability_set s parent_pid = Some cs \<Longrightarrow> c \<in> set (cs_capabilities cs) \<Longrightarrow>
      bracket_free (cp_resource_pattern c) \<and> CHR ''?'' \<notin> set (cp_resource_pattern c)"
    and child: "check_capability s child_pid res oper"
  shows "check_capability s parent_pid res oper"
proof -
  obtain cs cc where cs: "get_capability_set s child_pid = Some cs" "cc \<in> set (cs_capabilities cs)" "cap_allows cc res oper"
    using child by (auto simp: check_capability_def capability_set_check_def split: option.splits)
  obtain ps pc where ps: "get_capability_set s parent_pid = Some ps" "pc \<in> set (cs_capabilities ps)" "covers pc cc"
    using ok cs by (fastforce simp: verify_child_subset_def split: option.splits)
  have "cap_allows pc res oper"
    using covers_sound [OF ps(3)] simple [OF cs(1,2)] parent [OF ps(1,2)] cs(3) by blast
  then show ?thesis using ps by (auto simp: check_capability_def capability_set_check_def)
qed

text \<open>A parent with access to one workspace and a child with access to one file of it.\<close>

definition delegated :: "string \<Rightarrow> string \<Rightarrow> kstate" where
  "delegated p c = init_kstate\<lparr>k_capability_sets :=
     [\<lparr>cs_set_id = ''x'', cs_pid = ''parent'', cs_capabilities = [template ''a'' p [''acquire'']]\<rparr>,
      \<lparr>cs_set_id = ''y'', cs_pid = ''child'', cs_capabilities = [template ''b'' c [''acquire'']]\<rparr>]\<rparr>"

theorem verify_child_subset_sound_witness:
  "verify_child_subset (delegated ''resource:w/*'' ''resource:w/f*'') ''parent'' ''child'' \<and>
   check_capability (delegated ''resource:w/*'' ''resource:w/f*'') ''parent'' ''resource:w/file'' ''acquire''"
proof -
  let ?s = "delegated ''resource:w/*'' ''resource:w/f*''"
  have v: "verify_child_subset ?s ''parent'' ''child''" by code_simp
  have c: "check_capability ?s ''child'' ''resource:w/file'' ''acquire''" by code_simp
  have "check_capability ?s ''parent'' ''resource:w/file'' ''acquire''"
    by (rule verify_child_subset_sound [OF v _ _ c])
      (auto simp: delegated_def get_capability_set_def template_def)
  then show ?thesis using v by simp
qed


end
