(* ===== verification/DispatcherLaws.thy ===== *)
theory DispatcherLaws
  imports Safety CapabilityLaws
begin

text \<open>
  What the system calls guarantee to the process that makes them and to all others: spawning does
  not escalate privileges, a refused submission leaves nothing behind, an admitted action is covered
  by a valid fencing contract, and release and exit touch only what belongs to the caller.
\<close>

section \<open>Spawn\<close>

lemma keeps_caps_transition: "keeps k_capability_sets (transition pid target wait)"
proof -
  have e: "keeps k_capability_sets (emit a b c)" for a b c
    using jo_emit [of a b c] by (auto simp: keeps_def steps_def intro: journal_only_sel)
  show ?thesis
    unfolding transition_def
    by (intro keeps_rules)
      (auto split: option.split sum.split intro!: keeps_rules keeps_modify e)
qed

lemma transition_row_of:
  assumes "transition pid target wait s = (Inr ev, t)" "get_process s pid = Some p"
  shows "\<exists>q. get_process t pid = Some q \<and> p_state q = target \<and> p_namespace_id q = p_namespace_id p \<and>
    p_parent_pid q = p_parent_pid p \<and> p_resource_group_id q = p_resource_group_id p \<and>
    p_program_id q = p_program_id p"
proof -
  obtain p' r u where p': "apply_process_transition p target wait = Inr (p', r)"
    and u: "emit pid (process_event_type target) (transition_payload p' target r wait) s = (Inr ev, u)"
    and t: "t = upsert_process p' u"
    using assms
    by (auto simp: transition_def bind_op_eq_Inr_iff then_op_eq_Inr_iff split: sum.splits)
  have "journal_only s u" using jo_emit u by (rule stepsD)
  then have "get_process u pid = Some p" using assms(2) by (simp add: get_process_def journal_only_sel)
  moreover have "p_pid p' = pid" using apply_process_InrD(2) [OF p'] get_process_pid [OF assms(2)] by simp
  ultimately show ?thesis
    using apply_process_InrD(1) [OF p'] by (simp add: t get_upsert_process merge_pcb_def)
qed

lemma spawn_result:
  assumes "spawn prog ns None parent grp pri st s = (Inr p, t)" "ids_ok s"
  shows "p_namespace_id p = ns \<and> p_parent_pid p = parent \<and> p_resource_group_id p = grp \<and> p_state p = READY \<and>
    p_pid p \<notin> p_pid ` set (k_processes s) \<and> k_capability_sets t = k_capability_sets s"
proof -
  let ?pid = "uuid_hex (k_uuids s)" and ?cid = "uuid_hex (Suc (k_uuids s))"
  let ?p = "new_pcb ?pid prog ?cid parent ns grp pri (k_now s)"
  obtain u1 ev1 ev2 q0 where e: "emit ?pid ''PROCESS_SPAWNED'' (PPcb ?p)
        (save_program_state ?pid (or_empty st) (drawn (drawn s))) = (Inr ev1, u1)"
    and tr: "transition ?pid READY None (upsert_process ?p u1) = (Inr ev2, t)"
    and p: "p = (case get_process t ?pid of Some q \<Rightarrow> q | None \<Rightarrow> q0)"
    using assms(1)
    by (auto simp: spawn_def uuid4_def Let_def bind_op_eq_Inr_iff then_op_eq_Inr_iff)
  have jo: "journal_only (save_program_state ?pid (or_empty st) (drawn (drawn s))) u1"
    using jo_emit e by (rule stepsD)
  have fresh: "?pid \<notin> p_pid ` set (k_processes s)" using ids_ok_fresh(1) [OF assms(2)] .
  then have "get_process u1 ?pid = None"
    using journal_only_sel(1) [OF jo] by (simp add: get_process_def tbl_get_None)
  then have "get_process (upsert_process ?p u1) ?pid = Some (pcb_row ?p)"
    by (simp add: get_upsert_process new_pcb_def)
  then obtain q where q: "get_process t ?pid = Some q" "p_state q = READY" "p_namespace_id q = ns"
    "p_parent_pid q = parent" "p_resource_group_id q = grp"
    using transition_row_of [OF tr] by (auto simp: new_pcb_def pcb_row_def)
  moreover have "k_capability_sets t = k_capability_sets s"
    using keepsD [OF keeps_caps_transition tr] journal_only_sel [OF jo]
    by (simp add: save_program_state_def)
  ultimately show ?thesis using p fresh get_process_pid [OF q(1)] by simp
qed

text \<open>
  C7: Spawning does not escalate. When a process spawns a child, the child may do exactly what its
  parent may do at that moment, it lives in the parent's namespace and resource group whatever the
  request says, and its recorded parent is the caller.
\<close>

theorem spawn_does_not_escalate:
  assumes run: "handle_spawn full pid f s = (Inr ev, t)" and ids: "ids_ok s" and ok: "journal_ok s" and pid: "pid \<noteq> []"
    and complete: "ev_event_type ev = ''SPAWN_COMPLETE''"
  shows "\<exists>parent child. get_process s pid = Some parent \<and> get_process t (p_pid child) = Some child \<and>
    p_pid child \<notin> p_pid ` set (k_processes s) \<and> p_parent_pid child = Some pid \<and>
    p_namespace_id child = p_namespace_id parent \<and> p_resource_group_id child = p_resource_group_id parent \<and>
    (\<forall>res oper. check_capability t (p_pid child) res oper \<longleftrightarrow> check_capability s pid res oper)"
proof -
  define caps where "caps = (case get_capability_set s pid of None \<Rightarrow> [] | Some cs \<Rightarrow> cs_capabilities cs)"
  have "\<nexists>u. spawn_failed pid s = (Inr ev, u)"
    using emit_ok [OF ok] complete by (auto simp: spawn_failed_def)
  then obtain parent where parent: "get_process s pid = Some parent"
    and child: "spawn_child f (Some pid) (p_namespace_id parent) (p_resource_group_id parent) caps s = (Inr ev, t)"
    using run pid by (auto simp: handle_spawn_def caps_def split: option.splits if_splits)
  from child obtain p u where sp: "spawn (sp_program_id f) (p_namespace_id parent) None (Some pid)
      (p_resource_group_id parent) 10 (Some (sp_initial_state f)) s = (Inr p, u)"
    and rest: "bind_op (create_capability_set (p_pid p) caps) (\<lambda>cs.
      then_op (modify (upsert_process (p\<lparr>p_capability_set_id := cs_set_id cs\<rparr>)))
      (emit (p_pid p) ''SPAWN_COMPLETE'' (PDict
        [(''pid'', VStr (p_pid p)), (''program_id'', VStr (p_program_id p))]))) u = (Inr ev, t)"
    by (auto simp: spawn_child_def bind_op_eq_Inr_iff)
  note p = spawn_result [OF sp ids]
  obtain cs v where cs: "create_capability_set (p_pid p) caps u = (Inr cs, v)"
    and fin: "emit (p_pid p) ''SPAWN_COMPLETE'' (PDict
        [(''pid'', VStr (p_pid p)), (''program_id'', VStr (p_program_id p))])
        (upsert_process (p\<lparr>p_capability_set_id := cs_set_id cs\<rparr>) v) = (Inr ev, t)"
    using rest by (auto simp: bind_op_eq_Inr_iff)
  note t = journal_only_sel [OF stepsD [OF jo_emit fin]]
  obtain w ev' where up: "upsert_capability_set \<lparr>cs_set_id = cs_set_id cs, cs_pid = p_pid p, cs_capabilities = caps\<rparr> (drawn u) = (Inr (), w)"
    and em: "emit (p_pid p) ''CAPABILITY_SET_CREATED'' (PCapSet cs) w = (Inr ev', v)"
    using cs by (auto simp: create_capability_set_def uuid4_def Let_def bind_op_eq_Inr_iff then_op_eq_Inr_iff)
  note v = journal_only_sel [OF stepsD [OF jo_emit em]]
  have "check_capability t (p_pid p) res oper = check_capability w (p_pid p) res oper" for res oper
    by (simp add: check_capability_def get_capability_set_def t v)
  also have "check_capability w (p_pid p) res oper = (\<exists>c \<in> set caps. cap_allows c res oper)" for res oper
    unfolding check_upsert [OF up] by simp
  also have "(\<exists>c \<in> set caps. cap_allows c res oper) = check_capability s pid res oper" for res oper
    by (cases "get_capability_set s pid") (auto simp: check_capability_def capability_set_check_def caps_def)
  finally have caps: "check_capability t (p_pid p) res oper = check_capability s pid res oper" for res oper .
  have "get_process v (p_pid p) = Some p"
    using keepsD [OF keeps_processes_caps cs] spawn_row [OF sp] by (simp add: get_process_def)
  then have "get_process t (p_pid p) = Some (merge_pcb p (pcb_row (p\<lparr>p_capability_set_id := cs_set_id cs\<rparr>)))"
    using get_upsert_process [of "p\<lparr>p_capability_set_id := cs_set_id cs\<rparr>" v "p_pid p"]
    by (simp add: get_process_def t)
  then show ?thesis
    using p parent caps
    by (intro exI [of _ parent] exI [of _ "merge_pcb p (pcb_row (p\<lparr>p_capability_set_id := cs_set_id cs\<rparr>))"])
      (auto simp: merge_pcb_def)
qed

text \<open>A running process with one capability.\<close>

definition family :: kstate where
  "family = init_kstate\<lparr>
     k_processes := [(new_pcb ''px'' ''prog'' ''cs'' None ''ns'' ''grp'' 10 0)\<lparr>p_state := RUNNING\<rparr>],
     k_capability_sets := [\<lparr>cs_set_id = ''cx'', cs_pid = ''px'',
       cs_capabilities = [template ''kx'' ''device:tool/*'' [''invoke''], template ''ky'' ''r*'' [''acquire''] ]\<rparr>]\<rparr>"

lemma family_ok: "ids_ok family" "journal_ok family" "lease_inv family" "owner_open family ''px''"
  by (auto simp: ids_ok_def keys_ok_def family_def new_pcb_def journal_ok_def lease_inv_def owner_open_def
      get_process_def intro!: used_name)

definition child_request :: spawn_fields where
  "child_request = \<lparr>sp_program_id = ''child'', sp_parent_pid = None, sp_capabilities = [''full''],
     sp_namespace_id = ''other'', sp_resource_group_id = ''other'', sp_initial_state = []\<rparr>"

theorem spawn_does_not_escalate_witness:
  "\<exists>child. get_process (snd (handle_spawn [] ''px'' child_request family)) (p_pid child) = Some child \<and>
     p_namespace_id child = ''ns'' \<and>
     \<not> check_capability (snd (handle_spawn [] ''px'' child_request family)) (p_pid child) ''device:model/mock'' ''invoke''"
proof -
  have "case fst (handle_spawn [] ''px'' child_request family) of
      Inr ev \<Rightarrow> ev_event_type ev = ''SPAWN_COMPLETE'' | Inl _ \<Rightarrow> False" by code_simp
  then obtain ev where ev: "handle_spawn [] ''px'' child_request family =
      (Inr ev, snd (handle_spawn [] ''px'' child_request family))" "ev_event_type ev = ''SPAWN_COMPLETE''"
    by (cases "handle_spawn [] ''px'' child_request family") (auto split: sum.splits)
  have no: "\<not> check_capability family ''px'' ''device:model/mock'' ''invoke''" by code_simp
  have ns: "map_option p_namespace_id (get_process family ''px'') = Some ''ns''" by code_simp
  from spawn_does_not_escalate [OF ev(1) family_ok(1,2) _ ev(2)] no ns show ?thesis by auto
qed

section \<open>Submission\<close>

lemma for_enforce_denied:
  assumes "journal_ok s" "\<exists>c \<in> set claims. \<not> check_capability s pid (cl_resource_id c) oper"
  shows "\<exists>c ev. c \<in> set claims \<and> for_op claims (\<lambda>c. enforce pid (cl_resource_id c) oper) s =
    (Inl (CapabilityDenied pid (cl_resource_id c) oper), journaled s ev)"
  using assms(2)
proof (induction claims)
  case Nil
  then show ?case by simp
next
  case (Cons c claims)
  show ?case
  proof (cases "check_capability s pid (cl_resource_id c) oper")
    case True
    then have "enforce pid (cl_resource_id c) oper s = (Inr (), s)" by (simp add: enforce_def)
    then have "for_op (c # claims) (\<lambda>c. enforce pid (cl_resource_id c) oper) s =
        for_op claims (\<lambda>c. enforce pid (cl_resource_id c) oper) s" by (simp add: then_op_def bind_op_def)
    moreover have "\<exists>c \<in> set claims. \<not> check_capability s pid (cl_resource_id c) oper" using Cons.prems True by auto
    ultimately show ?thesis using Cons.IH by (auto simp del: for_op.simps)
  next
    case False
    then show ?thesis
      using emit_ok [OF assms(1)] by (auto simp: enforce_def then_op_def bind_op_def)
  qed
qed

text \<open>
  C16: A submission without the required capabilities is refused and leaves nothing behind: when the
  caller may not invoke the device or may not acquire one of the claimed resources, the call ends
  with a denial; no action, lease, fence, waiting entry or signal has been touched.
\<close>

theorem denied_submission_leaves_nothing:
  assumes ok: "journal_ok s" and contract: "strict \<longrightarrow> missing_fields f = []"
    and denied: "\<not> check_capability s pid (''device:'' @ sr_device_type f) ''invoke'' \<or>
      (\<exists>c \<in> set (sr_resource_claims f). \<not> check_capability s pid (cl_resource_id c) ''acquire'')"
  shows "\<exists>r oper ev. handle_submit_action strict rid pid f s = (Inl (CapabilityDenied pid r oper), journaled s ev)"
proof (cases "check_capability s pid (''device:'' @ sr_device_type f) ''invoke''")
  case True
  then have "enforce pid (''device:'' @ sr_device_type f) ''invoke'' s = (Inr (), s)" by (simp add: enforce_def)
  moreover have "\<exists>c \<in> set (sr_resource_claims f). \<not> check_capability s pid (cl_resource_id c) ''acquire''"
    using denied True by simp
  from for_enforce_denied [OF ok this] obtain c :: claim and ev where
    "for_op (sr_resource_claims f) (\<lambda>c. enforce pid (cl_resource_id c) ''acquire'') s =
      (Inl (CapabilityDenied pid (cl_resource_id c) ''acquire''), journaled s ev)" by (elim exE conjE)
  ultimately show ?thesis using contract by (auto simp: handle_submit_action_def then_op_def bind_op_def)
next
  case False
  then show ?thesis
    using emit_ok [OF ok] contract by (auto simp: handle_submit_action_def enforce_def then_op_def bind_op_def)
qed

text \<open>A request for the tool device, with one claim.\<close>

definition tool_request :: "string \<Rightarrow> submit_fields" where
  "tool_request rid = \<lparr>sr_device_type = ''tool/mock'', sr_operation = ''op'', sr_arguments = [],
     sr_resource_claims = [\<lparr>cl_resource_id = rid, cl_mode_field = None\<rparr>], sr_side_effect_class = PURE,
     sr_recovery_policy = RETRY, sr_idempotency_key = None, sr_timeout_seconds = None, sr_fields_set = []\<rparr>"

theorem denied_submission_leaves_nothing_witness:
  "\<exists>r oper ev. handle_submit_action False ''q'' ''px'' (tool_request ''secret'') family =
     (Inl (CapabilityDenied ''px'' r oper), journaled family ev)"
proof (rule denied_submission_leaves_nothing)
  have "\<not> check_capability family ''px'' ''secret'' ''acquire''" by code_simp
  then show "\<not> check_capability family ''px'' (''device:'' @ sr_device_type (tool_request ''secret'')) ''invoke'' \<or>
      (\<exists>c \<in> set (sr_resource_claims (tool_request ''secret'')). \<not> check_capability family ''px'' (cl_resource_id c) ''acquire'')"
    by (simp add: tool_request_def)
qed (simp_all add: family_ok)

text \<open>The pieces of an admission, run one by one.\<close>

definition new_action :: "kstate \<Rightarrow> string \<Rightarrow> submit_fields \<Rightarrow> acb" where
  "new_action s pid f = \<lparr>a_action_id = uuid_hex (k_uuids s), a_pid = pid, a_device_type = sr_device_type f,
     a_operation = sr_operation f, a_arguments = sr_arguments f, a_state = ASubmitted,
     a_resource_claims = sr_resource_claims f, a_lease_ids = [], a_fencing_tokens = [],
     a_idempotency_key = sr_idempotency_key f, a_side_effect_class = sr_side_effect_class f,
     a_recovery_policy = sr_recovery_policy f, a_retry_count = 0, a_timeout_seconds = sr_timeout_seconds f,
     a_result = None, a_error = None, a_submitted_at = k_now s, a_finished_at = None\<rparr>"

lemma journal_ok_drawn: "journal_ok s \<Longrightarrow> journal_ok (drawn s)"
  by (rule journal_ok_uuid)

lemma journal_ok_upsert_action [simp]: "journal_ok (upsert_action a s) = journal_ok s"
  by (simp add: journal_ok_def)

lemma get_action_frame [simp]: "get_action (journaled s ev) aid = get_action s aid" "get_action (drawn s) aid = get_action s aid"
  by (simp_all add: get_action_def)

lemma submit_run:
  assumes "journal_ok s"
  shows "\<exists>ev. submit pid (sr_device_type f) (sr_operation f) (Some (sr_arguments f)) (sr_side_effect_class f)
      (sr_recovery_policy f) (sr_idempotency_key f) (sr_timeout_seconds f) None (sr_resource_claims f) s =
      (Inr (new_action s pid f), upsert_action (new_action s pid f) (journaled (drawn s) ev)) \<and>
      journal_ok (journaled (drawn s) ev)"
  using emit_ok [OF journal_ok_drawn [OF assms]] journaled_ok [OF journal_ok_drawn [OF assms]]
  by (auto simp: submit_def new_action_def uuid4_def bind_op_def then_op_def Let_def)

lemma admit_run:
  assumes "journal_ok s" "get_action s aid = Some a" "a_state a = ASubmitted"
  shows "\<exists>ev. admit aid s = (Inr ev, upsert_action (a\<lparr>a_state := AAdmitted\<rparr>) (journaled s ev)) \<and> journal_ok (journaled s ev)"
proof -
  have mv: "apply_action_transition a AAdmitted = Inr (a\<lparr>a_state := AAdmitted\<rparr>, ''admission_pass'')"
    unfolding apply_action_eq_Inr by (simp add: assms(3) ACTION_TRANSITIONS_def)
  show ?thesis
    using assms(2) emit_ok [OF assms(1)] journaled_ok [OF assms(1)]
    by (auto simp: admit_def with_action_def move_action_def mv bind_op_def then_op_def)
qed

lemma mark_intent_run:
  assumes "journal_ok s" "get_action s aid = Some a"
  shows "\<exists>ev. mark_intent_durable aid lids (Some ts) s =
      (Inr ev, upsert_action (a\<lparr>a_lease_ids := lids, a_fencing_tokens := ts\<rparr>) (journaled s ev)) \<and> journal_ok (journaled s ev)"
  using assms(2) emit_ok [OF assms(1)] journaled_ok [OF assms(1)]
  by (auto simp: mark_intent_durable_def with_action_def bind_op_def then_op_def Let_def)

lemma keeps_acquire: "keeps k_actions (atomic_acquire pid claims ttl)" "keeps k_now (atomic_acquire pid claims ttl)"
proof -
  have j: "keeps k_actions (emit a b c)" "keeps k_now (emit a b c)" "keeps k_actions (emit_tx es)" "keeps k_now (emit_tx es)" for a b c es
    using jo_emit [of a b c] jo_emit_tx(1) [of es] by (auto simp: keeps_def steps_def intro: journal_only_sel)
  have p: "keeps k_actions uuid4" "keeps k_now uuid4" "keeps k_actions (insert_lease l)" "keeps k_now (insert_lease l)"
    "keeps k_actions (clear_waiters_for_pid pid)" "keeps k_now (clear_waiters_for_pid pid)" for l pid
    by (auto simp: keeps_def uuid4_def insert_lease_def clear_waiters_for_pid_def)
  note d = atomic_acquire_def acquire_tx_def acquire_claims_def acquire_claim_def claim_token_def refuse_busy_def Let_def
  show "keeps k_actions (atomic_acquire pid claims ttl)" "keeps k_now (atomic_acquire pid claims ttl)"
    unfolding d
    by (auto split: option.split simp: set_fence_def add_waiter_def intro!: keeps_rules keeps_modify j p)
qed

text \<open>What an acquisition that finds every claim free hands over.\<close>

lemma acquire_granted:
  assumes ok: "journal_ok s" and inv: "lease_inv s" and op: "owner_open s pid"
    and dist: "distinct (map cl_resource_id claims)"
    and free: "\<forall>c \<in> set claims. \<forall>l \<in> set (k_leases s). \<not> conflicts c l"
  shows "\<exists>ls t. (if claims = [] then ret [] else atomic_acquire pid claims ttl) s = (Inr ls, t) \<and>
    list_all2 (matches_claim pid (k_now s + ttl)) claims ls \<and> k_leases t = k_leases s @ ls \<and>
    lease_inv t \<and> journal_ok t \<and> k_actions t = k_actions s \<and> k_now t = k_now s"
proof (cases "claims = []")
  case True
  then show ?thesis using ok inv by simp
next
  case False
  have "busy_claim (k_leases s) claims = None" using free by (simp only: busy_claim_None)
  from acquire_tx_granted [OF ok inv op dist this] obtain ls t where
    t: "acquire_tx pid claims ttl s = (Inr (None, ls), t)"
    "list_all2 (matches_claim pid (k_now s + ttl)) claims ls \<and> k_leases t = k_leases s @ ls \<and> lease_inv t \<and> journal_ok t"
    by blast
  have run: "atomic_acquire pid claims ttl s = (Inr ls, t)"
    using atomic_acquire_run [OF False dist] t(1) by simp
  show ?thesis
    using run False t(2) keepsD [OF keeps_acquire(1) run] keepsD [OF keeps_acquire(2) run] by simp
qed

text \<open>With one lease per resource the recorded tokens are those of the leases.\<close>

lemma dict_set_fresh: "k \<notin> fst ` set d \<Longrightarrow> dict_set k v d = d @ [(k, v)]"
  by (induction d) auto

lemma fold_dict_set:
  assumes "distinct (map key xs)" "fst ` set d \<inter> key ` set xs = {}"
  shows "fold (\<lambda>x. dict_set (key x) (v x)) xs d = d @ map (\<lambda>x. (key x, v x)) xs"
  using assms
proof (induction xs arbitrary: d)
  case (Cons x xs)
  then have "key x \<notin> fst ` set d" by auto
  then show ?case using Cons by (auto simp: dict_set_fresh)
qed simp

lemma fencing_tokens_of_distinct:
  "distinct (map l_resource_id ls) \<Longrightarrow> fencing_tokens_of ls = map (\<lambda>l. (l_resource_id l, l_fencing_token l)) ls"
  unfolding fencing_tokens_of_def by (subst fold_dict_set) auto

lemma claims_of_leases:
  assumes "list_all2 (matches_claim pid e) claims ls"
  shows "map l_resource_id ls = map cl_resource_id claims"
    "map (\<lambda>l. (l_resource_id l, l_mode l)) ls = map (\<lambda>c. (cl_resource_id c, cl_mode c)) claims"
    "\<forall>l \<in> set ls. l_owner_pid l = pid \<and> l_expires_at l = e"
  using assms by (induction rule: list_all2_induct) (auto simp: matches_claim_def)

text \<open>An action that records the leases just granted for its claims honours the fencing contract.\<close>

lemma granted_contract:
  assumes inv: "lease_inv t" and sub: "k_leases t = old @ ls"
    and m: "list_all2 (matches_claim (a_pid a) e) (a_resource_claims a) ls"
    and dist: "distinct (map cl_resource_id (a_resource_claims a))" and live: "now < e"
    and rec: "a_lease_ids a = map l_lease_id ls" "a_fencing_tokens a = fencing_tokens_of ls"
  shows "validate_fencing_contract_tx t a now = None"
proof -
  note c = claims_of_leases [OF m]
  note i = lease_invD [OF inv]
  have dr: "distinct (map l_resource_id ls)" using c(1) dist by simp
  have tok: "a_fencing_tokens a = map (\<lambda>l. (l_resource_id l, l_fencing_token l)) ls"
    using rec(2) fencing_tokens_of_distinct [OF dr] by simp
  have "fenced_by t a now (l_lease_id l) (l_resource_id l, l_mode l)" if "l \<in> set ls" for l
  proof -
    have "get_lease t (l_lease_id l) = Some l" using i(1) that sub by (intro get_lease_mem) auto
    moreover have "map_of (a_fencing_tokens a) (l_resource_id l) = Some (l_fencing_token l)"
      unfolding tok using dr that by (intro map_of_is_SomeI) (auto simp: comp_def)
    moreover have "k_fences t (l_resource_id l) = Some (l_fencing_token l)" using i that sub by auto
    ultimately show ?thesis using c(3) that live i(5) by (auto simp: fenced_by_def)
  qed
  then have "list_all2 (fenced_by t a now) (a_lease_ids a) (map (\<lambda>l. (l_resource_id l, l_mode l)) ls)"
    by (auto simp: rec(1) list_all2_map1 list_all2_map2 list.rel_refl_strong)
  then have fl: "fenced_leases t a now (a_lease_ids a) = Inr (map (\<lambda>c. (cl_resource_id c, cl_mode c)) (a_resource_claims a))"
    unfolding fenced_leases_iff using c(2) by simp
  have len: "length ls = length (a_resource_claims a)" using list_all2_lengthD [OF m] by simp
  have keys: "fst ` set (a_fencing_tokens a) = cl_resource_id ` set (a_resource_claims a)"
    unfolding tok using arg_cong [OF c(1), of set] by (simp add: image_image)
  have d: "distinct (a_lease_ids a)" using i(1) sub rec(1) by simp
  show ?thesis
    using fl len keys d rec by (cases "a_resource_claims a = []")
      (auto simp: validate_fencing_contract_tx_def Let_def distinct_remdups_id fencing_tokens_of_def)
qed

lemma for_enforce_granted:
  assumes "\<forall>c \<in> set claims. check_capability s pid (cl_resource_id c) oper"
  shows "for_op claims (\<lambda>c. enforce pid (cl_resource_id c) oper) s = (Inr (), s)"
  using assms by (induction claims) (simp_all add: enforce_def then_op_def bind_op_def)

text \<open>The request passes the effect contract and every capability check.\<close>

definition submittable :: "kstate \<Rightarrow> bool \<Rightarrow> string \<Rightarrow> submit_fields \<Rightarrow> bool" where
  "submittable s strict pid f \<longleftrightarrow> (strict \<longrightarrow> missing_fields f = []) \<and>
     check_capability s pid (''device:'' @ sr_device_type f) ''invoke'' \<and>
     (\<forall>c \<in> set (sr_resource_claims f). check_capability s pid (cl_resource_id c) ''acquire'')"

lemma handle_submit_submittable:
  "submittable s strict pid f \<Longrightarrow> handle_submit_action strict rid pid f s = admit_action pid f s"
  using for_enforce_granted [of "sr_resource_claims f" s pid "''acquire''"]
  by (auto simp: submittable_def handle_submit_action_def enforce_def then_op_def bind_op_def)

text \<open>The state between the submission of the action and the acquisition of its leases.\<close>

lemma submitted_state:
  assumes ok: "journal_ok s" and ids: "ids_ok s" and inv: "lease_inv s" and op: "owner_open s pid"
  shows "\<exists>u. submit pid (sr_device_type f) (sr_operation f) (Some (sr_arguments f)) (sr_side_effect_class f)
      (sr_recovery_policy f) (sr_idempotency_key f) (sr_timeout_seconds f) None (sr_resource_claims f) s =
      (Inr (new_action s pid f), u) \<and> journal_ok u \<and> lease_inv u \<and> owner_open u pid \<and> k_leases u = k_leases s \<and>
      k_fences u = k_fences s \<and> k_now u = k_now s \<and> k_waiters u = k_waiters s \<and>
      get_action u (uuid_hex (k_uuids s)) = Some (new_action s pid f)"
proof -
  obtain ev where r: "submit pid (sr_device_type f) (sr_operation f) (Some (sr_arguments f)) (sr_side_effect_class f)
      (sr_recovery_policy f) (sr_idempotency_key f) (sr_timeout_seconds f) None (sr_resource_claims f) s =
      (Inr (new_action s pid f), upsert_action (new_action s pid f) (journaled (drawn s) ev))"
    "journal_ok (journaled (drawn s) ev)" using submit_run [OF ok] by blast
  have "uuid_hex (k_uuids s) \<notin> a_action_id ` set (k_actions s)" using ids_ok_fresh(2) [OF ids] .
  then have "get_action s (uuid_hex (k_uuids s)) = None" by (auto simp: get_action_def tbl_get_None)
  then have "get_action (upsert_action (new_action s pid f) (journaled (drawn s) ev)) (uuid_hex (k_uuids s)) =
      Some (new_action s pid f)"
    by (simp add: get_upsert_action new_action_def acb_row_def)
  moreover have "lease_inv (upsert_action (new_action s pid f) (journaled (drawn s) ev))"
    by (rule lease_inv_mono [OF inv]) simp_all
  ultimately show ?thesis using r op by (simp add: owner_open_def get_process_def)
qed

text \<open>
  C6: Every admitted action is fenced. A submission that passes the effect contract and the
  capability checks, by a process that has not ended, for claims on distinct free resources, is
  admitted: its row is ADMITTED with the caller's claims and satisfies the fencing contract, one live
  lease per claim with the current token, at the moment of admission.
\<close>

theorem admitted_submission_is_fenced:
  assumes ok: "journal_ok s" and ids: "ids_ok s" and inv: "lease_inv s" and op: "owner_open s pid"
    and sub: "submittable s strict pid f"
    and dist: "distinct (map cl_resource_id (sr_resource_claims f))"
    and free: "\<forall>c \<in> set (sr_resource_claims f). \<forall>l \<in> set (k_leases s). \<not> conflicts c l"
  shows "\<exists>ev t a. handle_submit_action strict rid pid f s = (Inr ev, t) \<and>
    get_action t (uuid_hex (k_uuids s)) = Some a \<and> a_state a = AAdmitted \<and> a_pid a = pid \<and>
    a_resource_claims a = sr_resource_claims f \<and>
    validate_fencing_contract_tx t a (k_now t) = None \<and> lease_inv t"
proof -
  let ?a = "new_action s pid f" let ?i = "uuid_hex (k_uuids s)"
  obtain u where u: "submit pid (sr_device_type f) (sr_operation f) (Some (sr_arguments f)) (sr_side_effect_class f)
      (sr_recovery_policy f) (sr_idempotency_key f) (sr_timeout_seconds f) None (sr_resource_claims f) s = (Inr ?a, u)"
    "journal_ok u" "lease_inv u" "owner_open u pid" "k_leases u = k_leases s" "get_action u ?i = Some ?a"
    using submitted_state [OF ok ids inv op, of f] by blast
  obtain ls v where v: "(if sr_resource_claims f = [] then ret [] else atomic_acquire pid (sr_resource_claims f) DEFAULT_LEASE_TTL) u = (Inr ls, v)"
    "list_all2 (matches_claim pid (k_now u + DEFAULT_LEASE_TTL)) (sr_resource_claims f) ls" "k_leases v = k_leases u @ ls"
    "lease_inv v" "journal_ok v" "k_actions v = k_actions u" "k_now v = k_now u"
    using acquire_granted [OF u(2-4) dist, of DEFAULT_LEASE_TTL] free u(5) by auto
  have gv: "get_action v ?i = Some ?a" using v(6) u(6) by (simp add: get_action_def)
  have st: "a_state ?a = ASubmitted" "a_action_id ?a = ?i" by (simp_all add: new_action_def)
  obtain e1 where w: "admit ?i v = (Inr e1, upsert_action (?a\<lparr>a_state := AAdmitted\<rparr>) (journaled v e1))"
    "journal_ok (journaled v e1)" using admit_run [OF v(5) gv st(1)] by blast
  let ?w = "upsert_action (?a\<lparr>a_state := AAdmitted\<rparr>) (journaled v e1)"
  let ?b = "?a\<lparr>a_state := AAdmitted\<rparr>"
  have gw: "get_action ?w ?i = Some ?b"
    using gv by (simp add: get_upsert_action new_action_def acb_row_def merge_acb_def)
  have jw: "journal_ok ?w" using w(2) by simp
  let ?c = "?b\<lparr>a_lease_ids := map l_lease_id ls, a_fencing_tokens := fencing_tokens_of ls\<rparr>"
  obtain e2 where x: "mark_intent_durable ?i (map l_lease_id ls) (Some (fencing_tokens_of ls)) ?w =
      (Inr e2, upsert_action ?c (journaled ?w e2))" using mark_intent_run [OF jw gw] by blast
  let ?x = "upsert_action ?c (journaled ?w e2)"
  have gx: "get_action ?x ?i = Some ?c"
    using gw by (simp add: get_upsert_action new_action_def acb_row_def merge_acb_def)
  obtain ev where run: "handle_submit_action strict rid pid f s = (Inr ev, drawn ?x)"
    using handle_submit_submittable [OF sub, of rid] u(1) v(1) w(1) x st(2)
    by (auto simp: admit_action_def bind_op_def then_op_def try_op_def Let_def mk_event_def mk_event_at_def uuid4_def)
  have "validate_fencing_contract_tx (drawn ?x) ?c (k_now (drawn ?x)) = None"
    using v u(5) dist by (intro granted_contract [where old = "k_leases s" and ls = ls])
      (auto simp: new_action_def DEFAULT_LEASE_TTL_def intro: lease_inv_mono)
  moreover have "lease_inv (drawn ?x)" by (rule lease_inv_mono [OF v(4)]) simp_all
  moreover have "get_action (drawn ?x) ?i = Some ?c" using gx by (simp only: get_action_frame(2))
  moreover have "a_state ?c = AAdmitted" "a_pid ?c = pid" "a_resource_claims ?c = sr_resource_claims f"
    by (simp_all add: new_action_def)
  ultimately show ?thesis using run by blast
qed

theorem admitted_submission_is_fenced_witness:
  "\<exists>ev t a. handle_submit_action False ''q'' ''px'' (tool_request ''report'') family = (Inr ev, t) \<and>
    get_action t (uuid_hex (k_uuids family)) = Some a \<and> a_state a = AAdmitted \<and> a_pid a = ''px'' \<and>
    a_resource_claims a = sr_resource_claims (tool_request ''report'') \<and>
    validate_fencing_contract_tx t a (k_now t) = None \<and> lease_inv t"
proof (rule admitted_submission_is_fenced)
  have "check_capability family ''px'' ''device:tool/mock'' ''invoke''" "check_capability family ''px'' ''report'' ''acquire''"
    by code_simp+
  then show "submittable family False ''px'' (tool_request ''report'')" by (simp add: submittable_def tool_request_def)
qed (simp_all add: family_ok, simp_all add: tool_request_def family_def)







end
