(* ===== verification/SignalLaws.thy ===== *)
theory SignalLaws
  imports Signals LeaseLaws
begin

text \<open>
  The delivery of signals, \<open>SignalService.deliver_pending\<close>, described without its loop: who is
  woken, by which signal, and which signals are consumed.
\<close>

text \<open>The signal of a list that wakes a process: the first that targets it and meets its wait.\<close>

definition waking_signal :: "signal list \<Rightarrow> kstate \<Rightarrow> string \<Rightarrow> signal option" where
  "waking_signal rows s pid = (case get_process s pid of
     None \<Rightarrow> None
   | Some p \<Rightarrow> if p_state p = BLOCKED
       then find (\<lambda>g. sg_target_pid g = pid \<and> matches_wait_condition (p_wait_condition p) g) rows else None)"

abbreviation woken :: "pcb \<Rightarrow> pcb" where
  "woken p \<equiv> p\<lparr>p_state := READY, p_wait_condition := None\<rparr>"

definition consumed_by :: "signal list \<Rightarrow> kstate \<Rightarrow> string set" where
  "consumed_by rows s = {sg_signal_id g | g pid. waking_signal rows s pid = Some g}"

abbreviation consume :: "string set \<Rightarrow> signal list \<Rightarrow> signal list" where
  "consume ids \<equiv> tbl_update (\<lambda>g. sg_signal_id g \<in> ids) (\<lambda>g. g\<lparr>sg_consumed := True\<rparr>)"

lemma consume_consume: "consume I (consume J gs) = consume (I \<union> J) gs"
  by (simp add: tbl_update_def)

lemma apply_wake:
  "p_state p = BLOCKED \<Longrightarrow> apply_process_transition p READY None = Inr (woken p, ''woken'')"
  by (simp add: apply_process_transition_def validate_process_transition_def PROCESS_TRANSITIONS_def)

lemma merge_woken: "merge_pcb p (pcb_row (woken p)) = woken p"
  by (simp add: merge_pcb_def pcb_row_def)

lemma mark_consumed_run:
  assumes "journal_ok s"
  shows "\<exists>u. mark_consumed i s = (Inr (), u) \<and> journal_ok u \<and> k_signals u = consume {i} (k_signals s) \<and>
    k_processes u = k_processes s"
proof -
  have ok: "journal_ok (set_consumed i s)" using assms by (simp add: journal_ok_def set_consumed_def)
  show ?thesis
    using emit_ok [OF ok] journaled_ok [OF ok]
    by (simp add: mark_consumed_def then_op_def bind_op_def) (simp add: set_consumed_def)
qed

lemma deliver_one_wakes:
  assumes ok: "journal_ok s" and p: "get_process s (sg_target_pid g) = Some p" "p_state p = BLOCKED"
    "matches_wait_condition (p_wait_condition p) g"
  shows "\<exists>t. deliver_one g n s = (Inr (n + 1), t) \<and> journal_ok t \<and> k_signals t = consume {sg_signal_id g} (k_signals s) \<and>
    (\<forall>pid. get_process t pid = (if pid = sg_target_pid g then Some (woken p) else get_process s pid))"
proof -
  obtain u where u: "mark_consumed (sg_signal_id g) s = (Inr (), u)" "journal_ok u"
    "k_signals u = consume {sg_signal_id g} (k_signals s)" "k_processes u = k_processes s"
    using mark_consumed_run [OF ok] by blast
  have pu: "get_process u pid = get_process s pid" for pid using u(4) by (simp add: get_process_def)
  have tr: "\<exists>ev. transition (sg_target_pid g) READY None u = (Inr ev, upsert_process (woken p) (journaled u ev)) \<and>
      journal_ok (journaled u ev)"
    using transition_accepted [OF u(2) _ apply_wake [OF p(2)], of "sg_target_pid g"] pu p(1) journaled_ok [OF u(2)]
    by (auto simp: Let_def)
  then obtain ev where ev: "transition (sg_target_pid g) READY None u = (Inr ev, upsert_process (woken p) (journaled u ev))"
    "journal_ok (journaled u ev)" by blast
  have "deliver_one g n s = (Inr (n + 1), upsert_process (woken p) (journaled u ev))"
    using p u(1) ev(1) by (simp add: deliver_one_def then_op_def bind_op_def)
  moreover have "get_process (journaled u ev) pid = get_process s pid" for pid
    using pu by (simp add: get_process_def)
  ultimately show ?thesis
    using ev(2) u(3) get_process_pid [OF p(1)] p(1) by (simp add: get_upsert_process merge_woken)
qed

lemma deliver_one_skips:
  "\<nexists>p. get_process s (sg_target_pid g) = Some p \<and> p_state p = BLOCKED \<and> matches_wait_condition (p_wait_condition p) g \<Longrightarrow>
     deliver_one g n s = (Inr n, s)"
  by (auto simp: deliver_one_def split: option.split)

lemma waking_mem: "waking_signal rows s pid = Some g \<Longrightarrow> sg_target_pid g = pid \<and> g \<in> set rows"
  by (auto simp: waking_signal_def find_Some_iff split: option.splits if_splits)

lemma finite_waking: "finite {pid. waking_signal rows s pid \<noteq> None}"
proof (rule finite_subset)
  show "{pid. waking_signal rows s pid \<noteq> None} \<subseteq> sg_target_pid ` set rows"
    using waking_mem by (auto simp: image_iff) metis
qed simp

lemma deliver_loop:
  assumes "journal_ok s"
  shows "\<exists>t. fold_op deliver_one rows n s = (Inr (n + card {pid. waking_signal rows s pid \<noteq> None}), t) \<and>
    journal_ok t \<and> k_signals t = consume (consumed_by rows s) (k_signals s) \<and>
    (\<forall>pid. get_process t pid = (if waking_signal rows s pid = None then get_process s pid
       else map_option (\<lambda>p. woken p) (get_process s pid)))"
  using assms
proof (induction rows arbitrary: n s)
  case Nil
  have "waking_signal [] s pid = None" for pid by (simp add: waking_signal_def split: option.split)
  then show ?case using Nil by (simp add: consumed_by_def tbl_update_def)
next
  case (Cons g rows)
  let ?pid = "sg_target_pid g"
  show ?case
  proof (cases "\<exists>p. get_process s ?pid = Some p \<and> p_state p = BLOCKED \<and> matches_wait_condition (p_wait_condition p) g")
    case False
    have "waking_signal (g # rows) s pid = waking_signal rows s pid" for pid
      using False by (auto simp: waking_signal_def split: option.split)
    then show ?thesis
      using Cons.IH [OF Cons.prems, of n] fold_op_step [of deliver_one, OF deliver_one_skips [OF False, of n]]
      by (simp add: consumed_by_def)
  next
    case True
    then obtain p where p: "get_process s ?pid = Some p" "p_state p = BLOCKED"
      "matches_wait_condition (p_wait_condition p) g" by blast
    obtain u where u: "deliver_one g n s = (Inr (n + 1), u)" "journal_ok u"
      "k_signals u = consume {sg_signal_id g} (k_signals s)"
      "\<And>pid. get_process u pid = (if pid = ?pid then Some (woken p) else get_process s pid)"
      using deliver_one_wakes [OF Cons.prems p] by blast
    have w: "waking_signal rows u pid = (if pid = ?pid then None else waking_signal rows s pid)" for pid
      using u(4) by (simp add: waking_signal_def)
    have v: "waking_signal (g # rows) s pid = (if pid = ?pid then Some g else waking_signal rows s pid)" for pid
      using p by (auto simp: waking_signal_def split: option.split)
    have dom: "{pid. waking_signal (g # rows) s pid \<noteq> None} = insert ?pid {pid. waking_signal rows u pid \<noteq> None}"
      by (auto simp: v w)
    have cnt: "card {pid. waking_signal (g # rows) s pid \<noteq> None} = Suc (card {pid. waking_signal rows u pid \<noteq> None})"
      unfolding dom by (subst card_insert_disjoint [OF finite_waking]) (simp_all add: w)
    have ids: "consumed_by (g # rows) s = consumed_by rows u \<union> {sg_signal_id g}"
      unfolding consumed_by_def v w by (auto split: if_splits)
    obtain t where t: "fold_op deliver_one rows (n + 1) u = (Inr (n + 1 + card {pid. waking_signal rows u pid \<noteq> None}), t)"
      "journal_ok t" "k_signals t = consume (consumed_by rows u) (k_signals u)"
      "\<And>pid. get_process t pid = (if waking_signal rows u pid = None then get_process u pid
         else map_option (\<lambda>p. woken p) (get_process u pid))"
      using Cons.IH [OF u(2), of "n + 1"] by blast
    have "fold_op deliver_one (g # rows) n s = (Inr (n + card {pid. waking_signal (g # rows) s pid \<noteq> None}), t)"
      using fold_op_step [of deliver_one, OF u(1)] t(1) cnt by simp
    moreover have "k_signals t = consume (consumed_by (g # rows) s) (k_signals s)"
      unfolding t(3) u(3) ids by (rule consume_consume)
    moreover have "get_process t pid = (if waking_signal (g # rows) s pid = None then get_process s pid
         else map_option (\<lambda>p. woken p) (get_process s pid))" for pid
      using p(1) by (cases "pid = ?pid"; cases "waking_signal rows s pid") (simp_all add: t(4) u(4) v w)
    ultimately show ?thesis using t(2) by blast
  qed
qed

text \<open>
  C15: Delivery of pending signals. A process is woken exactly when it is BLOCKED and some unconsumed
  signal addressed to it meets its wait condition; it then becomes READY with its wait cleared, and
  of the matching signals exactly the oldest is consumed. Every other process and every other signal
  is untouched, and the call returns the number of processes woken.
\<close>

theorem deliver_pending_wakes_exactly:
  assumes "journal_ok s"
  shows "\<exists>t. deliver_pending s = (Inr (card {pid. waking_signal (unconsumed_signals s) s pid \<noteq> None}), t) \<and>
    k_signals t = consume (consumed_by (unconsumed_signals s) s) (k_signals s) \<and>
    (\<forall>pid. get_process t pid = (if waking_signal (unconsumed_signals s) s pid = None then get_process s pid
       else map_option (\<lambda>p. woken p) (get_process s pid)))"
  using deliver_loop [OF assms, of "unconsumed_signals s" 0] by (auto simp: deliver_pending_def)

text \<open>A process waiting for one of its actions, and the signal that reports the action's failure.\<close>

definition waiting :: kstate where
  "waiting = init_kstate\<lparr>
     k_processes := [(new_pcb ''px'' ''prog'' ''cs'' None ''default'' ''default'' 10 0)\<lparr>p_state := BLOCKED,
       p_wait_condition := Some [(''signal_types'', VList [VStr ''ACTION_COMPLETED'', VStr ''ACTION_FAILED'']),
         (''action_id'', VStr ''ax'')]\<rparr>],
     k_signals := [\<lparr>sg_signal_id = ''sx'', sg_target_pid = ''px'', sg_signal_type = ''ACTION_FAILED'',
       sg_source_pid = Some ''kernel'', sg_payload = [(''action_id'', VStr ''ax'')], sg_created_at = 3,
       sg_consumed = False\<rparr>]\<rparr>"

theorem deliver_pending_wakes_exactly_witness:
  "\<exists>t. map_option p_state (get_process t ''px'') = Some READY \<and> deliver_pending waiting = (fst (deliver_pending waiting), t)"
proof -
  have "journal_ok waiting" by (simp add: journal_ok_def waiting_def)
  from deliver_pending_wakes_exactly [OF this] obtain t r where t: "deliver_pending waiting = (r, t)"
    "get_process t ''px'' = (if waking_signal (unconsumed_signals waiting) waiting ''px'' = None
       then get_process waiting ''px'' else map_option (\<lambda>p. woken p) (get_process waiting ''px''))" by blast
  have "waking_signal (unconsumed_signals waiting) waiting ''px'' \<noteq> None" by code_simp
  moreover have "get_process waiting ''px'' \<noteq> None" by (simp add: waiting_def get_process_def new_pcb_def)
  ultimately show ?thesis using t by auto
qed

end
