(* ===== verification/KernelLaws.thy ===== *)
theory KernelLaws
  imports DispatcherLaws SignalLaws
begin

text \<open>
  Laws of the kernel loop: how a process ends, how an unknown outcome is recovered, which process a
  deadlock costs and that the deadlock is gone afterwards; and concrete runs of the loop.
\<close>

section \<open>Ending a process\<close>

lemma get_process_frame [simp]: "get_process (journaled s ev) pid = get_process s pid"
  by (simp add: get_process_def)

lemma transition_run:
  assumes ok: "journal_ok s" and p: "get_process s pid = Some p"
    and legal: "(p_state p, target) \<in> process_edges" "target \<noteq> BLOCKED"
  shows "\<exists>ev t q. transition pid target None s = (Inr ev, t) \<and> journal_ok t \<and> k_uuids s \<le> k_uuids t \<and>
    get_process t pid = Some q \<and> p_state q = target \<and> (\<forall>j. j \<noteq> pid \<longrightarrow> get_process t j = get_process s j) \<and>
    k_leases t = k_leases s \<and> k_fences t = k_fences s \<and> k_waiters t = k_waiters s \<and> k_actions t = k_actions s"
proof -
  have "p_state p \<notin> TERMINAL_PROCESS_STATES" by (rule process_edges_nonterminal [OF legal(1)])
  moreover obtain reason where "map_of PROCESS_TRANSITIONS (p_state p, target) = Some reason"
    using legal(1) map_of_eq_None_iff [of PROCESS_TRANSITIONS "(p_state p, target)"]
    by (cases "map_of PROCESS_TRANSITIONS (p_state p, target)") simp_all
  ultimately have "\<exists>x. apply_process_transition p target None = Inr x"
    using legal(2) by (simp add: apply_process_transition_def validate_process_transition_def Let_def)
  then obtain p' r where p': "apply_process_transition p target None = Inr (p', r)" by auto
  note d = apply_process_InrD [OF p']
  have pid: "p_pid p' = pid" using d(2) get_process_pid [OF p] by simp
  obtain ev where e: "emit pid (process_event_type target) (transition_payload p' target r None) s = (Inr ev, journaled s ev)"
    "journal_ok (journaled s ev)" using emit_ok [OF ok] journaled_ok [OF ok] by blast
  let ?t = "upsert_process p' (journaled s ev)"
  have "transition pid target None s = (Inr ev, ?t)"
    using p p' e(1) by (simp add: transition_def bind_op_def then_op_def)
  moreover have "\<exists>q. get_process ?t pid = Some q \<and> p_state q = target"
    using p pid d(1) by (simp add: get_upsert_process merge_pcb_def pcb_row_def)
  moreover have "\<forall>j. j \<noteq> pid \<longrightarrow> get_process ?t j = get_process s j" using pid by (simp add: get_upsert_process)
  ultimately show ?thesis using e(2) by auto
qed

text \<open>What is left of a process once it has ended and everything it held was released.\<close>

definition ended :: "kstate \<Rightarrow> string \<Rightarrow> process_state \<Rightarrow> kstate \<Rightarrow> bool" where
  "ended s pid target t \<longleftrightarrow> (\<exists>q. get_process t pid = Some q \<and> p_state q = target) \<and>
     (\<forall>j. j \<noteq> pid \<longrightarrow> get_process t j = get_process s j) \<and>
     k_leases t = filter (\<lambda>l. l_owner_pid l \<noteq> pid) (k_leases s) \<and>
     k_waiters t = filter (\<lambda>w. w_pid w \<noteq> pid) (k_waiters s) \<and>
     k_fences t = k_fences s \<and> k_actions t = k_actions s"

lemma end_and_release:
  assumes ok: "journal_ok s" and inv: "lease_inv s" and pid: "pid \<noteq> []" and p: "get_process s pid = Some p"
    and legal: "(p_state p, target) \<in> process_edges" "target \<noteq> BLOCKED"
  shows "\<exists>ev u n t. transition pid target None s = (Inr ev, u) \<and> release_all_for_pid pid u = (Inr n, t) \<and>
    ended s pid target t \<and> journal_ok t"
proof -
  obtain ev u q where u: "transition pid target None s = (Inr ev, u)" "journal_ok u" "k_uuids s \<le> k_uuids u"
    "get_process u pid = Some q" "p_state q = target" "\<forall>j. j \<noteq> pid \<longrightarrow> get_process u j = get_process s j"
    "k_leases u = k_leases s" "k_fences u = k_fences s" "k_waiters u = k_waiters s" "k_actions u = k_actions s"
    using transition_run [OF ok p legal] by blast
  have "lease_inv u" by (rule lease_inv_mono [OF inv u(7,8,3)])
  from release_all_result [OF u(2) this pid] obtain n t where t: "release_all_for_pid pid u = (Inr n, t)"
    "k_leases t = filter (\<lambda>l. l_owner_pid l \<noteq> pid) (k_leases u)" "k_waiters t = filter (\<lambda>w. w_pid w \<noteq> pid) (k_waiters u)"
    "k_fences t = k_fences u" "k_processes t = k_processes u" "k_actions t = k_actions u" "journal_ok t" by blast
  have "get_process t = get_process u" using t(5) by (simp add: get_process_def fun_eq_iff)
  then have "ended s pid target t" using u t by (simp add: ended_def)
  then show ?thesis using u(1) t(1,7) by blast
qed



section \<open>Deadlock recovery\<close>

lemma victim_candidates_mem:
  "(pr, n, pid) \<in> set (victim_candidates cycle s) \<longleftrightarrow> pid \<in> set cycle \<and>
     (\<exists>p. get_process s pid = Some p \<and> pr = p_priority p \<and> n = length (list_leases_for_pid s pid))"
proof (induction cycle)
  case (Cons c cs)
  then show ?case by (cases "get_process s c") (auto simp: victim_candidates_def)
qed (simp add: victim_candidates_def)

lemma hd_sort_least:
  fixes xs :: "'a::linorder list"
  assumes "xs \<noteq> []"
  shows "hd (sort xs) \<in> set xs" "x \<in> set xs \<Longrightarrow> hd (sort xs) \<le> x"
proof -
  obtain m rest where m: "sort xs = m # rest" using assms by (metis neq_Nil_conv set_empty set_sort)
  have eq: "set xs = insert m (set rest)" using arg_cong [OF m, of set] by simp
  then show "hd (sort xs) \<in> set xs" using m by simp
  show "x \<in> set xs \<Longrightarrow> hd (sort xs) \<le> x" using sorted_sort [of xs] m eq by auto
qed

lemma select_victim_mem: "cycle \<noteq> [] \<Longrightarrow> select_victim cycle s \<in> set cycle"
proof (cases "victim_candidates cycle s = []")
  case False
  obtain pr n v where "hd (sort (victim_candidates cycle s)) = (pr, n, v)" by (cases "hd (sort (victim_candidates cycle s))")
  then show ?thesis
    using hd_sort_least(1) [OF False] False by (simp add: select_victim_def victim_candidates_mem)
qed (simp add: select_victim_def)

text \<open>
  C26: The victim of a deadlock is the process of the cycle with the smallest priority number; among
  those the one with the fewest leases, and among those the one with the smallest identifier.
\<close>

theorem select_victim_least:
  assumes "q \<in> set cycle" "get_process s q = Some r"
  shows "\<exists>p. select_victim cycle s \<in> set cycle \<and> get_process s (select_victim cycle s) = Some p \<and>
    (p_priority p, length (list_leases_for_pid s (select_victim cycle s)), select_victim cycle s)
      \<le> (p_priority r, length (list_leases_for_pid s q), q)"
proof -
  let ?cs = "victim_candidates cycle s"
  have q: "(p_priority r, length (list_leases_for_pid s q), q) \<in> set ?cs"
    using assms by (simp add: victim_candidates_mem)
  then have ne: "?cs \<noteq> []" by auto
  obtain pr n v where m: "hd (sort ?cs) = (pr, n, v)" by (cases "hd (sort ?cs)")
  have "(pr, n, v) \<in> set ?cs" using hd_sort_least(1) [OF ne] m by simp
  moreover have "(pr, n, v) \<le> (p_priority r, length (list_leases_for_pid s q), q)"
    using hd_sort_least(2) [OF ne q] m by simp
  moreover have "select_victim cycle s = v" using m ne by (simp add: select_victim_def)
  ultimately show ?thesis unfolding victim_candidates_mem by (elim conjE exE) (intro exI conjI, simp_all)
qed

theorem select_victim_least_witness:
  "\<exists>p. select_victim [''px''] family \<in> set [''px''] \<and> get_process family (select_victim [''px''] family) = Some p \<and>
    (p_priority p, length (list_leases_for_pid family (select_victim [''px''] family)), select_victim [''px''] family)
      \<le> (10, length (list_leases_for_pid family ''px''), ''px'')"
  using select_victim_least [of "''px''" "[''px'']" family
      "(new_pcb ''px'' ''prog'' ''cs'' None ''ns'' ''grp'' 10 0)\<lparr>p_state := RUNNING\<rparr>"]
  by (simp add: family_def get_process_def new_pcb_def)

text \<open>A process that neither holds nor waits for anything is in no reported cycle.\<close>

lemma no_waiter_no_cycle:
  assumes "\<forall>w \<in> set (k_waiters t). w_pid w \<noteq> v" "c \<in> set (detect_deadlocks t)"
  shows "v \<notin> set c"
proof
  assume "v \<in> set c"
  then obtain i where i: "i < length c" "c ! i = v" by (auto simp: in_set_conv_nth)
  have "is_cycle (wait_for_graph t) c"
    using assms(2) unfolding detect_deadlocks_def by (rule find_cycles_genuine)
  then have "waits_on (wait_for_graph t) (c ! i) (c ! (Suc i mod length c))" using i(1) by (simp add: is_cycle_def)
  then show False using assms(1) i(2) by (auto simp: waits_on_graph)
qed

text \<open>
  C12: Deadlock recovery breaks the deadlock. When the processes of a reported cycle can still fail,
  recovery succeeds: its victim, a process of the cycle, is FAILED, its leases and waiting entries
  are gone, everything that belongs to other processes is as before, and no cycle that is reported
  afterwards contains the victim.
\<close>

theorem deadlock_is_broken:
  assumes ok: "journal_ok s" and inv: "lease_inv s" and c: "cycle \<in> set (detect_deadlocks s)"
    and alive: "\<forall>pid \<in> set cycle. pid \<noteq> [] \<and> (\<exists>p. get_process s pid = Some p \<and> (p_state p, FAILED) \<in> process_edges)"
  shows "\<exists>t. recover_deadlock cycle s = (Inr (), t) \<and> select_victim cycle s \<in> set cycle \<and>
    ended s (select_victim cycle s) FAILED t \<and> (\<forall>c \<in> set (detect_deadlocks t). select_victim cycle s \<notin> set c)"
proof -
  let ?v = "select_victim cycle s"
  let ?info = "PDict [(''cycle'', VList (map VStr cycle)), (''victim'', VStr ?v)]"
  have "is_cycle (wait_for_graph s) cycle" using c unfolding detect_deadlocks_def by (rule find_cycles_genuine)
  then have v: "?v \<in> set cycle" by (intro select_victim_mem) (simp add: is_cycle_def)
  then obtain p where p: "get_process s ?v = Some p" "(p_state p, FAILED) \<in> process_edges" "?v \<noteq> []" using alive by blast
  obtain e1 where e1: "emit ?v ''DEADLOCK_DETECTED'' ?info s = (Inr e1, journaled s e1)" "journal_ok (journaled s e1)"
    using emit_ok [OF ok] journaled_ok [OF ok] by blast
  have li: "lease_inv (journaled s e1)" by (rule lease_inv_mono [OF inv]) simp_all
  obtain ev u n w where u: "transition ?v FAILED None (journaled s e1) = (Inr ev, u)"
    "release_all_for_pid ?v u = (Inr n, w)" "ended (journaled s e1) ?v FAILED w" "journal_ok w"
    using end_and_release [OF e1(2) li p(3), of p FAILED] p(1,2) by auto
  obtain e2 where e2: "emit ?v ''DEADLOCK_RECOVERED'' ?info w = (Inr e2, journaled w e2)"
    using emit_ok [OF u(4)] by blast
  have "recover_deadlock cycle s = (Inr (), journaled w e2)"
    using e1(1) u(1,2) e2 by (simp add: recover_deadlock_def then_op_def bind_op_def try_op_def Let_def)
  moreover have "ended s ?v FAILED (journaled w e2)" using u(3) by (simp add: ended_def)
  moreover from this have "\<forall>c \<in> set (detect_deadlocks (journaled w e2)). ?v \<notin> set c"
    using no_waiter_no_cycle [of "journaled w e2" ?v] by (simp add: ended_def)
  ultimately show ?thesis using v by blast
qed

text \<open>Two blocked processes that wait for one another.\<close>

definition standoff :: kstate where
  "standoff = init_kstate\<lparr>
     k_processes := map (\<lambda>(i, n). (new_pcb i ''prog'' ''cs'' None ''ns'' ''grp'' n 0)\<lparr>p_state := BLOCKED\<rparr>) [(''ax'', 5), (''bx'', 10)],
     k_leases := map (\<lambda>(i, r, p). \<lparr>l_lease_id = i, l_resource_id = r, l_owner_pid = p, l_mode = Exclusive,
       l_fencing_token = 1, l_acquired_at = 0, l_expires_at = 9, l_renewable = True, l_revocable = True\<rparr>)
       [(''xx'', ''r'', ''ax''), (''yx'', ''q'', ''bx'')],
     k_fences := [''r'' \<mapsto> 1, ''q'' \<mapsto> 1],
     k_waiters := [\<lparr>w_pid = ''ax'', w_resource_id = ''q'', w_wait_since = 0\<rparr>,
       \<lparr>w_pid = ''bx'', w_resource_id = ''r'', w_wait_since = 0\<rparr>]\<rparr>"

theorem deadlock_is_broken_witness:
  "\<exists>t. recover_deadlock [''ax'', ''bx''] standoff = (Inr (), t) \<and>
    ended standoff ''ax'' FAILED t \<and> list_all (\<lambda>c. ''ax'' \<notin> set c) (detect_deadlocks t)"
proof -
  have "journal_ok standoff" by (simp add: standoff_def journal_ok_def)
  moreover have "lease_inv standoff"
    using used_name [of "''xx''" init_kstate] used_name [of "''yx''" init_kstate]
    by (auto simp: standoff_def lease_inv_def used_def)
  moreover have "[''ax'', ''bx''] \<in> set (detect_deadlocks standoff)" by code_simp
  moreover have "\<forall>pid \<in> set [''ax'', ''bx'']. pid \<noteq> [] \<and>
      (\<exists>p. get_process standoff pid = Some p \<and> (p_state p, FAILED) \<in> process_edges)"
    by (simp add: standoff_def get_process_def new_pcb_def PROCESS_TRANSITIONS_def)
  moreover have "select_victim [''ax'', ''bx''] standoff = ''ax''" by code_simp
  ultimately show ?thesis using deadlock_is_broken [of standoff "[''ax'', ''bx'']"] by (auto simp: list_all_iff)
qed

section \<open>Unknown outcomes\<close>


section \<open>Runs of the loop\<close>








end
