(* ===== verification/Durable.thy ===== *)
theory Durable
  imports KernelSteps
begin

text \<open>
  Durability: at every moment of every session the journal determines the projections. The relation
  \<open>agrees\<close> says what a replay restores: leases, fences, signals and capability sets exactly, actions
  up to error detail and end time, processes up to the bookkeeping columns. It is one more relation
  that the services respect, so the kernel loop keeps it.
\<close>

section \<open>Agreement of replayed and live tables\<close>

definition same_action :: "acb \<Rightarrow> acb \<Rightarrow> bool" where
  "same_action a b \<longleftrightarrow> a\<lparr>a_error := None, a_finished_at := None\<rparr> = b\<lparr>a_error := None, a_finished_at := None\<rparr> \<and>
     0 \<le> a_retry_count b"

definition identity_of :: "pcb \<Rightarrow> pcb" where
  "identity_of p = p\<lparr>p_wait_condition := None, p_checkpoint_ref := None, p_exit_code := None,
     p_result_ref := None, p_event_cursor := 0\<rparr>"

definition same_process :: "pcb \<Rightarrow> pcb \<Rightarrow> bool" where
  "same_process p q \<longleftrightarrow> identity_of p = identity_of q \<and>
     (p_state q \<notin> TERMINAL_PROCESS_STATES \<longrightarrow> p_wait_condition p = p_wait_condition q) \<and>
     (p_state q \<in> {CREATED, READY, RUNNING} \<longrightarrow> p_wait_condition q = None) \<and>
     p_wait_condition p \<noteq> Some [] \<and> p_wait_condition q \<noteq> Some []"

definition agrees :: "kstate \<Rightarrow> kstate \<Rightarrow> bool" where
  "agrees r s \<longleftrightarrow> k_leases r = k_leases s \<and> k_fences r = k_fences s \<and> k_signals r = k_signals s \<and>
     k_capability_sets r = k_capability_sets s \<and> list_all2 same_action (k_actions r) (k_actions s) \<and>
     list_all2 same_process (k_processes r) (k_processes s) \<and> distinct (map p_pid (k_processes s)) \<and>
     (\<forall>g \<in> set (k_signals s). sg_signal_id g \<noteq> [])"

definition durable :: "kstate \<Rightarrow> bool" where
  "durable s \<longleftrightarrow> journal_ok s \<and> lease_inv s \<and>
     (\<forall>ev \<in> set (k_journal s). ev_event_type ev \<noteq> ''CAPABILITY_GRANTED'') \<and>
     (\<exists>r. for_op (k_journal s) handle_all init_kstate = (Inr (), r) \<and> agrees r s)"

lemma durableD:
  assumes "durable s" shows "journal_ok s" "lease_inv s"
  using assms by (simp_all add: durable_def)

text \<open>Tables whose rows correspond.\<close>

lemma get_all2:
  assumes "list_all2 E T U" "\<And>x y. E x y \<Longrightarrow> key x = key y"
  shows "rel_option E (tbl_get key T k) (tbl_get key U k)"
  using assms(1) by (induction rule: list_all2_induct) (auto dest: assms(2))

lemma keys_all2:
  assumes "list_all2 E T U" "\<And>x y. E x y \<Longrightarrow> key x = key y"
  shows "key ` set T = key ` set U"
  using assms(1) by (induction rule: list_all2_induct) (auto dest: assms(2))

lemma upsert_all2:
  assumes rows: "list_all2 E T U" and key: "\<And>x y. E x y \<Longrightarrow> key x = key y"
    and new: "E x y" and merge: "\<And>v w. E v w \<Longrightarrow> E (merge v x) (merge w y)"
  shows "list_all2 E (tbl_upsert key merge x T) (tbl_upsert key merge y U)"
proof -
  have "key x \<in> key ` set T \<longleftrightarrow> key y \<in> key ` set U" using keys_all2 [OF rows key] key [OF new] by simp
  moreover have "list_all2 E (map (\<lambda>v. if key v = key x then merge v x else v) T)
      (map (\<lambda>w. if key w = key y then merge w y else w) U)"
    using rows by (induction rule: list_all2_induct) (auto simp: key [OF new] dest: key intro: merge)
  ultimately show ?thesis using rows new by (auto simp: tbl_upsert_def list_all2_appendI)
qed

lemma distinct_upsert: "distinct (map key T) \<Longrightarrow> (\<And>v. key (merge v x) = key v) \<Longrightarrow> distinct (map key (tbl_upsert key merge x T))"
  by (auto simp: tbl_upsert_def comp_def if_distrib cong: if_cong)

lemma map_key_all2:
  assumes "list_all2 E T U" "\<And>x y. E x y \<Longrightarrow> key x = key y"
  shows "map key T = map key U"
  using assms(1) by (induction rule: list_all2_induct) (auto dest: assms(2))

lemma upsert_row:
  assumes "distinct (map key T)" "tbl_get key T (key x) = Some v"
  shows "tbl_upsert key merge x T = map (\<lambda>w. if w = v then merge v x else w) T"
proof -
  have v: "v \<in> set T" "key v = key x" using assms(2) by (auto dest: tbl_get_key tbl_get_mem)
  then have "key w = key x \<longleftrightarrow> w = v" if "w \<in> set T" for w
    using assms(1) that by (auto simp: distinct_map inj_on_def)
  moreover have "key x \<in> key ` set T" using v by (metis image_eqI)
  ultimately show ?thesis by (auto simp: tbl_upsert_def)
qed

lemma upsert_left:
  assumes rows: "list_all2 E T U" and "distinct (map key T)" "tbl_get key T (key x) = Some v"
    and "\<And>w. E v w \<Longrightarrow> E (merge v x) w"
  shows "list_all2 E (tbl_upsert key merge x T) U"
  unfolding upsert_row [OF assms(2,3)] using rows
  by (simp add: list_all2_map1) (erule list_all2_mono, auto intro: assms(4))

lemma upsert_right:
  assumes rows: "list_all2 E T U" and "distinct (map key U)" "tbl_get key U (key x) = Some v"
    and "\<And>w. E w v \<Longrightarrow> E w (merge v x)"
  shows "list_all2 E T (tbl_upsert key merge x U)"
  unfolding upsert_row [OF assms(2,3)] using rows
  by (simp add: list_all2_map2) (erule list_all2_mono, auto intro: assms(4))

lemma same_action_sel:
  assumes "same_action a b"
  shows "a_action_id a = a_action_id b" "a_state a = a_state b" "a_pid a = a_pid b"
    "a_resource_claims a = a_resource_claims b" "a_lease_ids a = a_lease_ids b"
    "a_fencing_tokens a = a_fencing_tokens b" "a_retry_count a = a_retry_count b" "a_result a = a_result b" "0 \<le> a_retry_count b"
  using assms by (cases a; cases b; simp add: same_action_def)+

lemma same_action_merge:
  "same_action v w \<Longrightarrow> same_action a b \<Longrightarrow> same_action (merge_acb v (acb_row a)) (merge_acb w (acb_row b))"
  by (cases a; cases b; cases v; cases w) (simp add: same_action_def merge_acb_def acb_row_def)

lemma same_action_row: "same_action a b \<Longrightarrow> same_action (acb_row a) (acb_row b)"
  by (cases a; cases b) (simp add: same_action_def acb_row_def)

lemma same_process_sel:
  assumes "same_process p q"
  shows "p_pid p = p_pid q" "p_state p = p_state q"
  using assms by (cases p; cases q; simp add: same_process_def identity_of_def)+

lemma same_process_merge:
  "same_process v w \<Longrightarrow> same_process (pcb_row p) (pcb_row q) \<Longrightarrow>
     same_process (merge_pcb v (pcb_row p)) (merge_pcb w (pcb_row q))"
  by (cases p; cases q; cases v; cases w) (auto simp: same_process_def identity_of_def merge_pcb_def pcb_row_def)

lemma agrees_upsert_action:
  "agrees r s \<Longrightarrow> same_action a b \<Longrightarrow> agrees (upsert_action a r) (upsert_action b s)"
  unfolding agrees_def upsert_action_def
  by (auto intro!: upsert_all2 same_action_row same_action_merge dest: same_action_sel)

lemma agrees_upsert_process:
  "agrees r s \<Longrightarrow> same_process (pcb_row p) (pcb_row q) \<Longrightarrow> agrees (upsert_process p r) (upsert_process q s)"
  unfolding agrees_def upsert_process_def
  by (auto intro!: upsert_all2 same_process_merge distinct_upsert dest: same_process_sel)

lemma agrees_get:
  assumes "agrees r s"
  shows "rel_option same_action (get_action r aid) (get_action s aid)"
    "rel_option same_process (get_process r pid) (get_process s pid)"
  using assms unfolding agrees_def get_action_def get_process_def
  by (auto intro: get_all2 dest: same_action_sel same_process_sel)

text \<open>Bookkeeping on one side does not disturb the agreement.\<close>

lemma null_if_normal: "w \<noteq> Some [] \<Longrightarrow> null_if_empty w = w"
  by (auto simp: null_if_empty_def split: option.splits list.splits)

lemma same_process_meta:
  assumes "same_control p q"
  shows "same_process p w \<Longrightarrow> same_process (merge_pcb p (pcb_row q)) w"
    "same_process w p \<Longrightarrow> same_process w (merge_pcb p (pcb_row q))"
  using assms null_if_normal [of "p_wait_condition p"]
  by (cases p; cases q; cases w; simp add: same_process_def identity_of_def merge_pcb_def pcb_row_def same_control_def)+

lemma agrees_meta:
  assumes "agrees r s" "p_pid q = pid" "same_control p q"
  shows "get_process r pid = Some p \<Longrightarrow> agrees (upsert_process q r) s"
    "get_process s pid = Some p \<Longrightarrow> agrees r (upsert_process q s)"
proof -
  have "map p_pid (k_processes r) = map p_pid (k_processes s)"
    using assms(1) unfolding agrees_def by (blast intro: map_key_all2 dest: same_process_sel(1))
  then have dist: "distinct (map p_pid (k_processes r))" "distinct (map p_pid (k_processes s))"
    using assms(1) by (simp_all add: agrees_def)
  show "get_process r pid = Some p \<Longrightarrow> agrees (upsert_process q r) s"
    using assms dist unfolding agrees_def upsert_process_def get_process_def
    by (auto intro!: upsert_left same_process_meta)
  show "get_process s pid = Some p \<Longrightarrow> agrees r (upsert_process q s)"
    using assms dist unfolding agrees_def upsert_process_def get_process_def
    by (auto intro!: upsert_right same_process_meta distinct_upsert)
qed

section \<open>One more event\<close>

lemma durable_events:
  assumes d: "durable s" and j: "k_journal t = k_journal s @ evs" and ok: "journal_ok t" "lease_inv t"
    and no: "\<forall>ev \<in> set evs. ev_event_type ev \<noteq> ''CAPABILITY_GRANTED''"
    and run: "\<And>r. agrees r s \<Longrightarrow> \<exists>r'. for_op evs handle_all r = (Inr (), r') \<and> agrees r' t"
  shows "durable t"
proof -
  obtain r where r: "for_op (k_journal s) handle_all init_kstate = (Inr (), r)" "agrees r s"
    using d by (auto simp: durable_def)
  obtain r' where r': "for_op evs handle_all r = (Inr (), r')" "agrees r' t" using run [OF r(2)] by blast
  have "for_op (k_journal t) handle_all init_kstate = (Inr (), r')"
    using r(1) r'(1) by (simp add: j for_op_append then_op_def bind_op_def)
  then show ?thesis using d ok no r'(2) j by (auto simp: durable_def)
qed

lemma durable_same:
  assumes "durable s" "k_journal t = k_journal s" "k_next_offset t = k_next_offset s" "k_uuids s \<le> k_uuids t"
    and "\<And>r. agrees r s \<Longrightarrow> agrees r t" "k_leases t = k_leases s" "k_fences t = k_fences s"
  shows "durable t"
proof (rule durable_events [of s t "[]"])
  show "journal_ok t" using assms(1-4) by (auto simp: durable_def journal_ok_def)
  show "lease_inv t" by (rule lease_inv_mono [OF durableD(2) [OF assms(1)] assms(6,7,4)])
qed (use assms in auto)

text \<open>Writing an event and then the row it announces.\<close>

lemma durable_write:
  assumes d: "durable s" and t: "t = f (journaled s ev)" and ev: "ev = next_event s ts pid ty pl"
    and f: "\<And>u. k_journal (f u) = k_journal u \<and> k_next_offset (f u) = k_next_offset u \<and> k_uuids (f u) = k_uuids u \<and>
      k_leases (f u) = k_leases u \<and> k_fences (f u) = k_fences u"
    and no: "ty \<noteq> ''CAPABILITY_GRANTED''"
    and run: "\<And>r. agrees r s \<Longrightarrow> \<exists>r'. handle_all ev r = (Inr (), r') \<and> agrees r' t"
  shows "durable t"
proof (rule durable_events [OF d])
  show "k_journal t = k_journal s @ [ev]" by (simp add: t f)
  show "journal_ok t" using journaled_ok [OF durableD(1) [OF d], of ts pid ty pl]
    by (simp add: t f ev journal_ok_def)
  show "lease_inv t" by (rule lease_inv_mono [OF durableD(2) [OF d]]) (simp_all add: t f)
  show "\<forall>e \<in> set [ev]. ev_event_type e \<noteq> ''CAPABILITY_GRANTED''" using no by (simp add: ev)
  show "\<exists>r'. for_op [ev] handle_all r = (Inr (), r') \<and> agrees r' t" if "agrees r s" for r
    using run [OF that] by (auto simp: then_op_def bind_op_def)
qed

definition durably :: "kstate \<Rightarrow> kstate \<Rightarrow> bool" where
  "durably s t \<longleftrightarrow> (durable s \<longrightarrow> durable t)"

interpretation dj: op_preorder durably
  by unfold_locales (auto simp: durably_def)

lemma agrees_journaled [simp]: "agrees r (journaled s ev) = agrees r s"
  by (simp add: agrees_def)

lemma durably_emit: "quiet ty pl \<Longrightarrow> steps durably (emit pid ty pl)"
proof (rule stepsI)
  fix s
  assume q: "quiet ty pl"
  show "durably s (snd (emit pid ty pl s))"
    unfolding durably_def
  proof
    assume d: "durable s"
    let ?ev = "next_event s (k_now s) pid ty pl"
    have "durable (journaled s ?ev)"
    proof (rule durable_write [OF d, where f = id])
      show "ty \<noteq> ''CAPABILITY_GRANTED''" using q by (auto simp: quiet_def unhandled_def)
      show "\<exists>r'. handle_all ?ev r = (Inr (), r') \<and> agrees r' (journaled s ?ev)" if "agrees r s" for r
        using q that quiet_handle [of ?ev r] by simp
    qed simp_all
    then show "durable (snd (emit pid ty pl s))" using emit_ok [OF durableD(1) [OF d]] by simp
  qed
qed

section \<open>Processes\<close>

lemma handle_process: "is_process_event (ev_event_type ev) \<Longrightarrow> handle_all ev = then_op (process_handle_event ev) (ret ())"
  by (auto simp: handle_all_run action_handle_event_def capability_handle_event_def lease_handle_event_def
      signal_handle_event_def is_process_event_def action_events_def)

text \<open>The exit columns and the cursor that follow the state in the replay of a process event.\<close>

definition replay_trailer :: "event \<Rightarrow> unit kop" where
  "replay_trailer ev = then_op (replay_process_exit ev)
     (bind_op (gets (\<lambda>s. get_process s (ev_pid ev))) (\<lambda>r. case r of
        None \<Rightarrow> ret ()
      | Some p \<Rightarrow> modify (upsert_process (p\<lparr>p_event_cursor := ev_journal_offset ev + 1\<rparr>))))"

lemma replay_trailer_agrees:
  assumes "agrees r t"
  shows "\<exists>r'. replay_trailer ev r = (Inr (), r') \<and> agrees r' t"
proof -
  have "\<exists>r1. replay_process_exit ev r = (Inr (), r1) \<and> agrees r1 t"
  proof (cases "get_process r (ev_pid ev)")
    case (Some p)
    have "agrees (upsert_process q r) t" if "q = p\<lparr>p_exit_code := c, p_result_ref := x\<rparr>" for q c x
      using agrees_meta(1) [OF assms _ _ Some, of q] get_process_pid [OF Some] that by (simp add: same_control_def)
    moreover have "\<exists>c x. (let p1 = (case payload_get ev ''exit_code'' of
                      VStr c \<Rightarrow> if c = [] then p else p\<lparr>p_exit_code := Some c\<rparr> | _ \<Rightarrow> p)
          in case payload_get ev ''result_ref'' of
                      VStr c \<Rightarrow> if c = [] then p1 else p1\<lparr>p_result_ref := Some c\<rparr> | _ \<Rightarrow> p1) =
        p\<lparr>p_exit_code := c, p_result_ref := x\<rparr>"
      by (cases p) (auto simp: Let_def split: val.split)
    ultimately show ?thesis using assms Some by (auto simp: replay_process_exit_def Let_def)
  qed (use assms in \<open>simp add: replay_process_exit_def\<close>)
  then obtain r1 where r1: "replay_process_exit ev r = (Inr (), r1)" "agrees r1 t" by blast
  have "agrees (upsert_process (p\<lparr>p_event_cursor := n\<rparr>) r1) t" if "get_process r1 (ev_pid ev) = Some p" for p n
    using agrees_meta(1) [OF r1(2) _ _ that, of "p\<lparr>p_event_cursor := n\<rparr>"] get_process_pid [OF that]
    by (simp add: same_control_def)
  then show ?thesis
    using r1 by (simp add: replay_trailer_def then_op_def bind_op_def split: option.split)
qed

lemma process_event_class [simp]: "is_process_event (process_event_type q)" "process_event_type q \<noteq> ''PROCESS_SPAWNED''"
  "process_event_type q \<noteq> ''PROCESS_TRANSITION_REJECTED''" "process_event_type q \<noteq> ''CAPABILITY_GRANTED''"
  by (cases q; simp add: is_process_event_def)+

lemma process_handle_other:
  "is_process_event (ev_event_type ev) \<Longrightarrow> ev_event_type ev \<noteq> ''PROCESS_SPAWNED'' \<Longrightarrow>
   ev_event_type ev \<noteq> ''PROCESS_TRANSITION_REJECTED'' \<Longrightarrow>
     process_handle_event ev = then_op (replay_process_state ev) (replay_trailer ev)"
  by (simp add: process_handle_event_def replay_trailer_def)

text \<open>The replay of a transition moves the row the way the transition did.\<close>

lemma apply_process_shape:
  assumes "apply_process_transition p target wait = Inr (p', reason)"
  shows "p' = (if target = BLOCKED then p\<lparr>p_state := target, p_wait_condition := wait\<rparr>
    else if target = SUSPENDED then p\<lparr>p_state := target\<rparr> else p\<lparr>p_state := target, p_wait_condition := None\<rparr>)"
    "target \<noteq> CREATED" "p_state p \<noteq> EXITED" "p_state p \<noteq> FAILED" "target = BLOCKED \<Longrightarrow> p_state p = RUNNING \<and> wait \<noteq> None"
proof -
  have e: "(p_state p, target) \<in> process_edges" "p_state p \<notin> TERMINAL_PROCESS_STATES" "target = BLOCKED \<Longrightarrow> wait \<noteq> None"
    by (rule apply_process_InrD [OF assms])+
  show *: "target \<noteq> CREATED" "p_state p \<noteq> EXITED" "p_state p \<noteq> FAILED" "target = BLOCKED \<Longrightarrow> p_state p = RUNNING \<and> wait \<noteq> None"
    using e by (auto simp: PROCESS_TRANSITIONS_def)
  then show "p' = (if target = BLOCKED then p\<lparr>p_state := target, p_wait_condition := wait\<rparr>
    else if target = SUSPENDED then p\<lparr>p_state := target\<rparr> else p\<lparr>p_state := target, p_wait_condition := None\<rparr>)"
    using assms by (cases target) (auto simp: apply_process_transition_def Let_def split: sum.splits)
qed

lemma replay_transition_row:
  assumes ap: "apply_process_transition p target wait = Inr (p', reason)" and w: "wait = None \<or> target = BLOCKED"
    and same: "same_process p0 p" and row: "get_process r pid = Some p0" and ev: "ev_pid ev = pid"
    and pl: "ev_payload ev = transition_payload p' target reason wait"
  shows "\<exists>p2. replay_process_state ev r = (Inr (), upsert_process p2 r) \<and> same_process (pcb_row p2) (pcb_row p')"
proof -
  let ?v = "process_state_value target"
  let ?p2 = "case wait of Some (x # d) \<Rightarrow> p0\<lparr>p_state := target, p_wait_condition := Some (x # d)\<rparr>
    | _ \<Rightarrow> if target = READY \<or> target = RUNNING then p0\<lparr>p_state := target, p_wait_condition := None\<rparr> else p0\<lparr>p_state := target\<rparr>"
  have get: "payload_get ev ''new_state'' = VStr ?v" "payload_get ev ''wait_condition'' = wait_val wait"
    by (simp_all add: payload_get_def pl transition_payload_def dict_get_def)
  have v: "?v \<noteq> []" "?v = ''ready'' \<longleftrightarrow> target = READY" "?v = ''running'' \<longleftrightarrow> target = RUNNING"
    by (cases target; simp)+
  have "replay_process_state ev r = (Inr (), upsert_process ?p2 r)"
    using row v by (simp add: replay_process_state_def get ev process_state_of_value wait_val_def Let_def
        split: option.split list.split)
  moreover have "same_process (pcb_row ?p2) (pcb_row p')"
    using same w null_if_normal [of "p_wait_condition p"] apply_process_shape [OF ap]
    by (cases p0; cases p; cases target; cases wait)
      (auto simp: same_process_def identity_of_def pcb_row_def split: list.split)
  ultimately show ?thesis by blast
qed

lemma durably_transition:
  assumes w: "wait = None \<or> target = BLOCKED" shows "steps durably (transition pid target wait)"
proof (rule stepsI)
  fix s
  show "durably s (snd (transition pid target wait s))"
    unfolding durably_def
  proof
    assume d: "durable s"
    show "durable (snd (transition pid target wait s))"
    proof (cases "\<exists>p p' reason. get_process s pid = Some p \<and> apply_process_transition p target wait = Inr (p', reason)")
      case False
      then have "snd (transition pid target wait s) = s"
        by (cases "get_process s pid"; cases "apply_process_transition (the (get_process s pid)) target wait")
          (auto simp: transition_unknown transition_rejected)
      then show ?thesis using d by simp
    next
      case True
      then obtain p p' reason where p: "get_process s pid = Some p" and ap: "apply_process_transition p target wait = Inr (p', reason)"
        by blast
      let ?ev = "next_event s (k_now s) pid (process_event_type target) (transition_payload p' target reason wait)"
      have "durable (upsert_process p' (journaled s ?ev))"
      proof (rule durable_write [OF d refl refl])
        fix r assume r: "agrees r s"
        obtain p0 where p0: "get_process r pid = Some p0" "same_process p0 p"
          using agrees_get(2) [OF r, of pid] p by (auto elim: option.rel_cases)
        obtain p2 where p2: "replay_process_state ?ev r = (Inr (), upsert_process p2 r)" "same_process (pcb_row p2) (pcb_row p')"
          using replay_transition_row [OF ap w p0(2,1), of ?ev] by auto
        have "agrees (upsert_process p2 r) (upsert_process p' (journaled s ?ev))"
          using r by (intro agrees_upsert_process [OF _ p2(2)]) simp
        from replay_trailer_agrees [OF this, of ?ev] show
          "\<exists>r'. handle_all ?ev r = (Inr (), r') \<and> agrees r' (upsert_process p' (journaled s ?ev))"
          using p2(1) by (auto simp: handle_process process_handle_other then_op_def bind_op_def)
      qed simp_all
      then show ?thesis using transition_accepted [OF durableD(1) [OF d] p ap] by (simp add: Let_def)
    qed
  qed
qed

lemma durablyI: "(\<And>s. durable s \<Longrightarrow> durable (snd (m s))) \<Longrightarrow> steps durably m"
  by (simp add: steps_def durably_def)

text \<open>An event and its row, followed by anything durable.\<close>

lemma durably_announce:
  assumes "\<And>s. durable s \<Longrightarrow> durable (f (journaled s (next_event s (k_now s) pid ty pl)))" "\<And>ev. steps durably (k ev)"
  shows "steps durably (bind_op (emit pid ty pl) (\<lambda>ev. then_op (modify f) (k ev)))"
proof (rule durablyI)
  fix s assume d: "durable s"
  show "durable (snd (bind_op (emit pid ty pl) (\<lambda>ev. then_op (modify f) (k ev)) s))"
    using assms(2) assms(1) [OF d] by (simp add: bind_op_def emit_ok [OF durableD(1) [OF d]] steps_def durably_def)
qed

lemmas durably_announce_then = durably_announce [where k = "\<lambda>_. k" for k, folded then_op_def]

lemma durably_uuid: "steps durably uuid4"
  by (rule durablyI) (auto simp: uuid4_def agrees_def intro: durable_same)

lemma durably_tables:
  "durably s (save_program_state pid st s)" "durably s (snd (insert_checkpoint c s))" "durably s (s\<lparr>k_now := now\<rparr>)"
  "steps durably clock_tick" "steps durably (clear_waiters_for_pid pid)" "steps durably (modify (add_waiter pid rid))"
  by (auto simp: durably_def steps_def insert_checkpoint_def clock_tick_def clear_waiters_for_pid_def add_waiter_def
      agrees_def elim!: durable_same)

lemma durably_meta:
  "get_process s pid = Some p \<Longrightarrow> p_pid q = pid \<Longrightarrow> same_control p q \<Longrightarrow> durably s (upsert_process q s)"
  by (auto simp: durably_def intro: durable_same agrees_meta(2))

lemma durably_exited:
  "steps durably (emit pid ''PROCESS_EXITED'' (PDict [(''exit_code'', VStr code), (''result_ref'', opt_str rref)]))"
proof (rule durablyI)
  fix s assume d: "durable s"
  let ?pl = "PDict [(''exit_code'', VStr code), (''result_ref'', opt_str rref)]"
  let ?ev = "next_event s (k_now s) pid ''PROCESS_EXITED'' ?pl"
  have "replay_process_state ?ev = ret ()" by (simp add: replay_process_state_def payload_get_def dict_get_def)
  moreover have "is_process_event ''PROCESS_EXITED''" by (simp add: is_process_event_def)
  ultimately have "handle_all ?ev = then_op (replay_trailer ?ev) (ret ())"
    by (simp add: handle_process process_handle_other fun_eq_iff then_op_def bind_op_def)
  then have run: "\<exists>r'. handle_all ?ev r = (Inr (), r') \<and> agrees r' s" if "agrees r s" for r
    using replay_trailer_agrees [OF that, of ?ev] by (auto simp: then_op_def bind_op_def)
  have "durable (journaled s ?ev)"
  proof (rule durable_write [OF d, where f = id])
    show "\<exists>r'. handle_all ?ev r = (Inr (), r') \<and> agrees r' (journaled s ?ev)" if "agrees r s" for r
      using run [OF that] by simp
    show "''PROCESS_EXITED'' \<noteq> ''CAPABILITY_GRANTED''" by simp
  qed simp_all
  then show "durable (snd (emit pid ''PROCESS_EXITED'' ?pl s))" by (simp add: emit_ok [OF durableD(1) [OF d]])
qed

lemma durably_spawn: "steps durably (spawn prog ns None parent grp pri st)"
proof -
  have "durable (upsert_process p (journaled s (next_event s (k_now s) pid ''PROCESS_SPAWNED'' (PPcb p))))"
    if d: "durable s" and p: "p_state p = CREATED" "p_wait_condition p = None" for s p pid
  proof (rule durable_write [OF d refl refl])
    fix r assume r: "agrees r s"
    let ?ev = "next_event s (k_now s) pid ''PROCESS_SPAWNED'' (PPcb p)"
    have "same_process (pcb_row p) (pcb_row p)" using p by (simp add: same_process_def pcb_row_def)
    then have "agrees (upsert_process p r) (upsert_process p (journaled s ?ev))"
      using r by (intro agrees_upsert_process) simp_all
    then have "agrees (save_program_state i x (upsert_process p r)) (upsert_process p (journaled s ?ev))" for i x
      by (simp add: agrees_def)
    then show "\<exists>r'. handle_all ?ev r = (Inr (), r') \<and> agrees r' (upsert_process p (journaled s ?ev))"
      by (simp add: handle_process is_process_event_def process_handle_event_def then_op_def bind_op_def)
  qed simp_all
  then have announce: "steps durably (then_op (emit pid ''PROCESS_SPAWNED'' (PPcb p)) (then_op (modify (upsert_process p)) k))"
    if "p_state p = CREATED" "p_wait_condition p = None" "steps durably k" for pid p and k :: "pcb kop"
    using that by (intro durably_announce_then) auto
  have "steps durably (then_op (modify (save_program_state pid x)) k)" if "steps durably k" for pid x and k :: "pcb kop"
    using that by (intro dj.steps_then dj.steps_modify durably_tables)
  note save = this
  show ?thesis
    unfolding spawn_def Let_def option.case
    by (intro dj.steps_bind durably_uuid dj.steps_gets save announce dj.steps_then durably_transition)
      (simp_all add: new_pcb_def)
qed

section \<open>Signals and capability sets\<close>

lemma handle_signal_event:
  "ev_event_type ev \<in> {''SIGNAL_SENT'', ''SIGNAL_CONSUMED''} \<Longrightarrow> handle_all ev = then_op (signal_handle_event ev) (ret ())"
  by (auto simp: handle_all_run process_handle_event_def action_handle_event_def capability_handle_event_def
      lease_handle_event_def is_process_event_def action_events_def)

lemma agrees_signals:
  "agrees r s \<Longrightarrow> sg_signal_id g \<noteq> [] \<Longrightarrow> agrees (upsert_signal g r) (upsert_signal g s)"
  "agrees r s \<Longrightarrow> agrees (set_consumed i r) (set_consumed i s)"
  by (auto simp: agrees_def upsert_signal_def set_consumed_def tbl_replace_def set_tbl_update)

lemma consume_nothing: "agrees r s \<Longrightarrow> set_consumed [] r = r"
  by (cases r) (auto simp: agrees_def set_consumed_def tbl_update_def map_idI)

lemma durably_send: "steps durably (send_signal dest sty source payload)"
proof -
  have "durable (upsert_signal g (journaled s (next_event s (k_now s) pid ''SIGNAL_SENT'' (PSignal g))))"
    if d: "durable s" and g: "sg_signal_id g \<noteq> []" for s g pid
  proof (rule durable_write [OF d refl refl])
    fix r assume r: "agrees r s"
    let ?ev = "next_event s (k_now s) pid ''SIGNAL_SENT'' (PSignal g)"
    show "\<exists>r'. handle_all ?ev r = (Inr (), r') \<and> agrees r' (upsert_signal g (journaled s ?ev))"
      using agrees_signals(1) [of r "journaled s ?ev" g] r g
      by (simp add: handle_signal_event signal_handle_event_def then_op_def bind_op_def)
  qed (simp_all add: upsert_signal_def)
  then have announce: "steps durably (then_op (emit pid ''SIGNAL_SENT'' (PSignal g)) (then_op (modify (upsert_signal g)) (ret g)))"
    if "sg_signal_id g \<noteq> []" for g pid
    using that by (intro durably_announce_then dj.steps_ret)
  have "durably s (snd (send_signal dest sty source payload s))" for s
    using dj.R_trans [OF dj.at_steps [OF durably_uuid, of s]] dj.at_steps [OF announce]
    by (simp add: send_signal_def bind_op_def [of uuid4] uuid4_run Let_def uuid_hex_nonempty)
  then show ?thesis by (rule stepsI)
qed

text \<open>Consumption is journaled after the row was written.\<close>

lemma durably_mark_consumed: "steps durably (mark_consumed i)"
proof (rule durablyI)
  fix s assume d: "durable s"
  let ?pl = "PDict [(''signal_id'', VStr i)]"
  let ?u = "set_consumed i s" let ?ev = "next_event ?u (k_now ?u) ''kernel'' ''SIGNAL_CONSUMED'' ?pl"
  have ok: "journal_ok ?u" using durableD(1) [OF d] by (simp add: set_consumed_def journal_ok_def)
  have ev: "?ev = next_event s (k_now s) ''kernel'' ''SIGNAL_CONSUMED'' ?pl"
    by (simp add: next_event_def set_consumed_def)
  have "durable (journaled ?u ?ev)"
  proof (rule durable_write [OF d _ ev, where f = "set_consumed i"])
    show "journaled ?u ?ev = set_consumed i (journaled s ?ev)" by (simp add: journaled_def set_consumed_def)
    show "\<exists>r'. handle_all ?ev r = (Inr (), r') \<and> agrees r' (journaled ?u ?ev)" if "agrees r s" for r
      using agrees_signals(2) [OF that, of i] consume_nothing [OF that]
      by (cases "i = []") (simp_all add: handle_signal_event signal_handle_event_def payload_get_def dict_get_def then_op_def bind_op_def)
  qed (simp_all add: set_consumed_def)
  then show "durable (snd (mark_consumed i s))"
    using emit_ok [OF ok] by (simp add: mark_consumed_def then_op_def bind_op_def)
qed

lemma durably_deliver: "steps durably deliver_pending"
  unfolding deliver_pending_def deliver_one_def
  by (auto split: option.split intro!: dj.steps_rules durably_mark_consumed durably_transition)

lemma handle_capability_event:
  "ev_event_type ev = ''CAPABILITY_SET_CREATED'' \<Longrightarrow> handle_all ev = then_op (capability_handle_event ev) (ret ())"
  by (auto simp: handle_all_run process_handle_event_def action_handle_event_def signal_handle_event_def
      lease_handle_event_def is_process_event_def action_events_def)

lemma durably_caps: "steps durably (create_capability_set pid caps)"
proof (rule durablyI)
  fix s assume d: "durable s"
  let ?cs = "\<lparr>cs_set_id = uuid_hex (k_uuids s), cs_pid = pid, cs_capabilities = caps\<rparr>"
  have d': "durable (drawn s)" using dj.at_steps [OF durably_uuid, of s] d by (simp add: durably_def uuid4_run)
  show "durable (snd (create_capability_set pid caps s))"
  proof (cases "upsert_capability_set ?cs (drawn s)")
    case (Pair x u)
    show ?thesis
    proof (cases x)
      case (Inl e)
      then have "u = drawn s" using Pair by (auto simp: upsert_capability_set_def split: if_splits)
      then show ?thesis using Pair Inl d' by (simp add: create_capability_set_def uuid4_run bind_op_def then_op_def Let_def)
    next
      case (Inr y)
      let ?T = "tbl_upsert cs_pid merge_caps ?cs (k_capability_sets s)"
      have u: "u = (drawn s)\<lparr>k_capability_sets := ?T\<rparr>"
        and free: "\<not> (pid \<notin> cs_pid ` set (k_capability_sets s) \<and> uuid_hex (k_uuids s) \<in> cs_set_id ` set (k_capability_sets s))"
        using Pair Inr by (auto simp: upsert_capability_set_def split: if_splits)
      let ?ev = "next_event (drawn s) (k_now s) pid ''CAPABILITY_SET_CREATED'' (PCapSet ?cs)"
      have ok: "journal_ok u" using durableD(1) [OF d'] by (simp add: u journal_ok_def)
      have "durable (journaled u ?ev)"
      proof (rule durable_write [OF d' _ refl, where f = "\<lambda>v. v\<lparr>k_capability_sets := ?T\<rparr>"])
        show "journaled u ?ev = (journaled (drawn s) ?ev)\<lparr>k_capability_sets := ?T\<rparr>" by (simp add: journaled_def u)
        show "\<exists>r'. handle_all ?ev r = (Inr (), r') \<and> agrees r' (journaled u ?ev)" if "agrees r (drawn s)" for r
          using that free
          by (auto simp: handle_capability_event capability_handle_event_def upsert_capability_set_def agrees_def u
              then_op_def bind_op_def)
      qed simp_all
      moreover have "next_event u (k_now u) pid ''CAPABILITY_SET_CREATED'' (PCapSet ?cs) = ?ev"
        by (simp add: next_event_def u)
      ultimately show ?thesis
        using Pair Inr emit_ok [OF ok] by (simp add: create_capability_set_def uuid4_run bind_op_def then_op_def Let_def)
    qed
  qed
qed

section \<open>Leases\<close>

lemma handle_lease_event:
  "ev_event_type ev \<in> {''LEASE_ACQUIRED'', ''LEASE_RELEASED'', ''LEASE_EXPIRED''} \<Longrightarrow>
     handle_all ev = then_op (lease_handle_event ev) (ret ())"
  by (auto simp: handle_all_run process_handle_event_def action_handle_event_def signal_handle_event_def
      capability_handle_event_def is_process_event_def action_events_def)

definition deletes :: "event \<Rightarrow> string \<Rightarrow> bool" where
  "deletes ev i \<longleftrightarrow> (ev_event_type ev = ''LEASE_RELEASED'' \<or> ev_event_type ev = ''LEASE_EXPIRED'') \<and>
     payload_get ev ''lease_id'' = VStr i"

lemma delete_event:
  assumes "deletes ev i"
  shows "handle_all ev r = (Inr (), r\<lparr>k_leases := filter (\<lambda>l. l_lease_id l \<noteq> i) (k_leases r)\<rparr>)"
proof -
  have "lease_handle_event ev = then_op (delete_leases (\<lambda>l. l_lease_id l = i)) (ret ())"
    using assms by (auto simp: lease_handle_event_def deletes_def)
  then show ?thesis
    using assms by (auto simp: deletes_def handle_lease_event delete_leases_def then_op_def bind_op_def)
qed

lemma replay_deletes:
  assumes "list_all2 deletes evs ids"
  shows "for_op evs handle_all r = (Inr (), r\<lparr>k_leases := filter (\<lambda>l. l_lease_id l \<notin> set ids) (k_leases r)\<rparr>)"
  using assms
proof (induction arbitrary: r rule: list_all2_induct)
  case (Cons ev evs i ids)
  have "handle_all ev r = (Inr (), r\<lparr>k_leases := filter (\<lambda>l. l_lease_id l \<noteq> i) (k_leases r)\<rparr>)"
    using Cons.hyps by (intro delete_event)
  then show ?case by (simp add: then_op_def bind_op_def Cons.IH conj_commute)
qed simp

lemma released_contents:
  "map content evs = map released_event rows \<Longrightarrow>
     list_all2 deletes evs (map l_lease_id rows)"
  by (induction rows arbitrary: evs)
    (auto simp: deletes_def content_def released_event_def payload_get_def dict_get_def Cons_eq_map_conv map_eq_Cons_conv)

lemma reclaimed_contents:
  "map content evs = concat (map (\<lambda>l. [released_event l, expired_event l]) rows) \<Longrightarrow>
     list_all2 deletes evs (concat (map (\<lambda>l. [l_lease_id l, l_lease_id l]) rows))"
  by (induction rows arbitrary: evs)
    (auto simp: deletes_def content_def released_event_def expired_event_def payload_get_def dict_get_def map_eq_Cons_conv)

text \<open>A state that differs by deleted leases and their events.\<close>

lemma durable_deletes:
  assumes d: "durable s" and j: "k_journal t = k_journal s @ evs" "journal_ok t" "k_uuids s \<le> k_uuids t"
    and evs: "list_all2 deletes evs ids"
    and t: "k_leases t = filter (\<lambda>l. l_lease_id l \<notin> set ids) (k_leases s)" "k_fences t = k_fences s"
      "k_processes t = k_processes s" "k_actions t = k_actions s" "k_signals t = k_signals s" "k_capability_sets t = k_capability_sets s"
  shows "durable t"
proof (rule durable_events [OF d j(1,2)])
  show "lease_inv t"
    using lease_inv_filter [OF durableD(2) [OF d], of "\<lambda>l. l_lease_id l \<notin> set ids"]
    by (rule lease_inv_mono) (simp_all add: t j)
  show "\<forall>ev \<in> set evs. ev_event_type ev \<noteq> ''CAPABILITY_GRANTED''"
    using evs by (induction rule: list_all2_induct) (auto simp: deletes_def)
  show "\<exists>r'. for_op evs handle_all r = (Inr (), r') \<and> agrees r' t" if "agrees r s" for r
    using that by (simp add: replay_deletes [OF evs] agrees_def t)
qed

lemma filter_other_ids:
  assumes "distinct (map l_lease_id L)"
  shows "filter (\<lambda>l. l_lease_id l \<notin> l_lease_id ` set (filter P L)) L = filter (\<lambda>l. \<not> P l) L"
  using assms by (intro filter_cong) (auto simp: distinct_map inj_on_def)

lemma durably_release_all: "steps durably (release_all_for_pid pid)"
proof (rule durablyI)
  fix s assume d: "durable s"
  show "durable (snd (release_all_for_pid pid s))"
  proof (cases "pid = []")
    case False
    from release_all_result [OF durableD [OF d] False] obtain n t evs where
      t: "release_all_for_pid pid s = (Inr n, t)" "k_leases t = filter (\<lambda>l. l_owner_pid l \<noteq> pid) (k_leases s)"
        "k_fences t = k_fences s" "k_processes t = k_processes s" "k_actions t = k_actions s" "journal_ok t"
        "k_uuids s \<le> k_uuids t" "k_signals t = k_signals s" "k_capability_sets t = k_capability_sets s"
        "k_journal t = k_journal s @ evs" "map content evs = map released_event (list_leases_for_pid s pid)" by blast
    have "k_leases t = filter (\<lambda>l. l_lease_id l \<notin> set (map l_lease_id (list_leases_for_pid s pid))) (k_leases s)"
      using filter_other_ids [OF lease_invD(1) [OF durableD(2) [OF d]], of "\<lambda>l. l_owner_pid l = pid"]
      by (simp add: t(2) list_leases_for_pid_def)
    then have "durable t" using d t by (intro durable_deletes [OF d t(10,6,7) released_contents [OF t(11)]]) simp_all
    then show ?thesis using t(1) by simp
  qed (use d in \<open>simp add: release_all_for_pid_def\<close>)
qed

lemma durably_reclaim: "steps durably (reclaim_expired cutoff)"
proof (rule durablyI)
  fix s assume d: "durable s"
  let ?rows = "filter (\<lambda>l. l_expires_at l \<le> cutoff) (k_leases s)"
  from reclaim_result [OF durableD [OF d], of cutoff] obtain n t evs where
    t: "reclaim_expired cutoff s = (Inr n, t)" "k_leases t = filter (\<lambda>l. cutoff < l_expires_at l) (k_leases s)"
      "k_fences t = k_fences s" "k_processes t = k_processes s" "k_actions t = k_actions s" "journal_ok t"
      "k_uuids s \<le> k_uuids t" "k_signals t = k_signals s" "k_capability_sets t = k_capability_sets s"
      "k_journal t = k_journal s @ evs" "map content evs = concat (map (\<lambda>l. [released_event l, expired_event l]) ?rows)" by blast
  have "set (concat (map (\<lambda>l. [l_lease_id l, l_lease_id l]) ?rows)) = l_lease_id ` set ?rows" by auto
  then have "k_leases t = filter (\<lambda>l. l_lease_id l \<notin> set (concat (map (\<lambda>l. [l_lease_id l, l_lease_id l]) ?rows))) (k_leases s)"
    using filter_other_ids [OF lease_invD(1) [OF durableD(2) [OF d]], of "\<lambda>l. l_expires_at l \<le> cutoff"]
    by (simp only: t(2) not_le)
  then have "durable t" using t by (intro durable_deletes [OF d t(10,6,7) reclaimed_contents [OF t(11)]]) simp_all
  then show "durable (snd (reclaim_expired cutoff s))" using t(1) by simp
qed

lemma release_loop:
  "\<exists>rows. fold_op release_one lids acc s =
      (Inr (acc @ rows), s\<lparr>k_leases := filter (\<lambda>l. l_lease_id l \<notin> set lids) (k_leases s)\<rparr>) \<and>
     l_lease_id ` set rows = set lids \<inter> lease_id_set s"
proof (induction lids arbitrary: acc s)
  case (Cons lid lids)
  show ?case
  proof (cases "get_lease s lid")
    case None
    then have no: "lid \<notin> lease_id_set s" by (simp add: get_lease_def tbl_get_None)
    have one: "release_one lid acc s = (Inr acc, s)" using None by (simp add: release_one_def)
    have "filter (\<lambda>l. l_lease_id l \<noteq> lid \<and> l_lease_id l \<notin> set lids) (k_leases s) =
        filter (\<lambda>l. l_lease_id l \<notin> set lids) (k_leases s)" using no by (intro filter_cong) auto
    then show ?thesis
      using Cons.IH [of acc s] no unfolding fold_op_step [of release_one, OF one] by auto
  next
    case (Some l)
    let ?u = "s\<lparr>k_leases := filter (\<lambda>x. l_lease_id x \<noteq> lid) (k_leases s)\<rparr>"
    have l: "l \<in> set (k_leases s)" "l_lease_id l = lid" using get_leaseD [OF Some] by auto
    have one: "release_one lid acc s = (Inr (acc @ [l]), ?u)"
      using Some by (simp add: release_one_def delete_leases_def then_op_def bind_op_def)
    obtain rows where "fold_op release_one lids (acc @ [l]) ?u =
        (Inr ((acc @ [l]) @ rows), ?u\<lparr>k_leases := filter (\<lambda>l. l_lease_id l \<notin> set lids) (k_leases ?u)\<rparr>)"
      "l_lease_id ` set rows = set lids \<inter> lease_id_set ?u" using Cons.IH by blast
    then show ?thesis
      unfolding fold_op_step [of release_one, OF one] using l
      by (intro exI [of _ "l # rows"]) (auto simp: conj_commute)
  qed
qed simp

lemma durably_release: "steps durably (release lids)"
proof (rule durablyI)
  fix s assume d: "durable s"
  show "durable (snd (release lids s))"
  proof (cases "lids = []")
    case False
    let ?u = "s\<lparr>k_leases := filter (\<lambda>l. l_lease_id l \<notin> set lids) (k_leases s)\<rparr>"
    obtain rows where rows: "fold_op release_one lids [] s = (Inr rows, ?u)" "l_lease_id ` set rows = set lids \<inter> lease_id_set s"
      using release_loop [of lids "[]" s] by auto
    have "journal_ok ?u" using durableD(1) [OF d] by (simp add: journal_ok_def)
    from emit_tx_ok [OF this, of "map released_event rows"] obtain evs t where
      e: "emit_tx (map released_event rows) ?u = (Inr evs, t)" "journal_ok t" "k_journal t = k_journal s @ evs"
        "map content evs = map released_event rows" "journal_only ?u t" "k_uuids s \<le> k_uuids t" by auto
    note sel = journal_only_sel [OF e(5)]
    have "k_leases t = filter (\<lambda>l. l_lease_id l \<notin> set (map l_lease_id rows)) (k_leases s)"
      using rows(2) by (auto simp: sel intro!: filter_cong)
    then have "durable t"
      by (intro durable_deletes [OF d e(3,2,6) released_contents [OF e(4)]]) (simp_all add: sel)
    then show ?thesis
      using rows(1) e(1) False by (simp add: release_def transaction_def then_op_def bind_op_def)
  qed (use d in \<open>simp add: release_def\<close>)
qed

lemma replay_acquired:
  assumes "map content evs = map (\<lambda>l. (pid, ''LEASE_ACQUIRED'', PLease l)) ls" "distinct (map l_lease_id (k_leases r @ ls))"
  shows "for_op evs handle_all r = (Inr (), r\<lparr>k_leases := k_leases r @ ls, k_fences := fold raised ls (k_fences r)\<rparr>)"
  using assms
proof (induction ls arbitrary: evs r)
  case (Cons l ls)
  then obtain ev evs' where ev: "evs = ev # evs'" "content ev = (pid, ''LEASE_ACQUIRED'', PLease l)"
    "map content evs' = map (\<lambda>l. (pid, ''LEASE_ACQUIRED'', PLease l)) ls" by (auto simp: map_eq_Cons_conv)
  then have evs: "evs = ev # evs'" "ev_event_type ev = ''LEASE_ACQUIRED''" "ev_payload ev = PLease l"
    "map content evs' = map (\<lambda>l. (pid, ''LEASE_ACQUIRED'', PLease l)) ls" by (auto simp: content_def)
  have "l_lease_id l \<notin> l_lease_id ` set (k_leases r)" using Cons.prems(2) by auto
  then have rep: "tbl_replace l_lease_id l (k_leases r) = k_leases r @ [l]" by (rule tbl_replace_fresh)
  let ?r = "r\<lparr>k_leases := k_leases r @ [l], k_fences := raised l (k_fences r)\<rparr>"
  have one: "handle_all ev r = (Inr (), ?r)"
    using evs(2,3) by (simp add: handle_lease_event lease_handle_event_def raise_fence_def set_fence_def rep raised_def
        then_op_def bind_op_def)
  have "distinct (map l_lease_id (k_leases ?r @ ls))" using Cons.prems(2) by simp
  from Cons.IH [OF evs(4) this] show ?case by (simp add: evs(1) one then_op_def bind_op_def)
qed simp

lemma durable_acquire_tx:
  assumes d: "durable s" and dist: "distinct (map cl_resource_id claims)"
    and run: "acquire_tx pid claims ttl s = (Inr (lost, ls), t)"
  shows "durable t"
proof (cases lost)
  case (Some c)
  then show ?thesis using acquire_tx_busy(1) [of pid claims ttl s c ls t] run d by simp
next
  case None
  have open': "owner_open s pid" and free: "busy_claim (k_leases s) claims = None"
    using run None
    by (auto simp: owner_open_def acquire_tx_def bind_op_eq_Inr_iff then_op_eq_Inr_iff split: if_splits option.splits)
  from acquire_tx_granted [OF durableD [OF d] open' dist free, of ttl] run obtain evs where
    t: "k_leases t = k_leases s @ ls" "lease_inv t" "journal_ok t" "k_fences t = fold raised ls (k_fences s)"
      "k_processes t = k_processes s" "k_actions t = k_actions s" "k_signals t = k_signals s"
      "k_capability_sets t = k_capability_sets s" "k_journal t = k_journal s @ evs"
      "map content evs = map (\<lambda>l. (pid, ''LEASE_ACQUIRED'', PLease l)) ls" by auto
  show ?thesis
  proof (rule durable_events [OF d t(9,3,2)])
    have "content ev \<in> (\<lambda>l. (pid, ''LEASE_ACQUIRED'', PLease l)) ` set ls" if "ev \<in> set evs" for ev
      using that arg_cong [OF t(10), of set] by auto
    then show "\<forall>ev \<in> set evs. ev_event_type ev \<noteq> ''CAPABILITY_GRANTED''" by (fastforce simp: content_def)
    fix r assume r: "agrees r s"
    have "distinct (map l_lease_id (k_leases r @ ls))" using lease_invD(1) [OF t(2)] r by (simp add: t(1) agrees_def)
    from replay_acquired [OF t(10) this] show "\<exists>r'. for_op evs handle_all r = (Inr (), r') \<and> agrees r' t"
      using r by (simp add: agrees_def t)
  qed
qed

lemma durably_acquire: "steps durably (atomic_acquire pid claims ttl)"
proof -
  have refuse: "steps durably (refuse_busy pid c)" for c
    unfolding refuse_busy_def by (intro dj.steps_rules durably_tables durably_emit) simp
  have tx: "steps durably (transaction (acquire_tx pid claims ttl))" if "first_duplicate (map cl_resource_id claims) {} = None"
    using that durable_acquire_tx first_duplicate_None [of "map cl_resource_id claims" "{}"]
    by (intro durablyI) (auto simp: transaction_def split: prod.splits sum.splits)
  show ?thesis
    unfolding atomic_acquire_def
    by (auto split: option.split intro!: dj.steps_rules durably_tables refuse tx)
qed

end
