(* ===== verification/Rebuild.thy ===== *)
theory Rebuild
  imports Durable
begin

text \<open>
  The operations on actions keep the journal sufficient, every session of the kernel does, and so a
  rebuild from the journal restores the tables.
\<close>

section \<open>Actions\<close>

lemma handle_action_event:
  assumes "ev_event_type ev = ''ACTION_SUBMITTED'' \<or> ev_event_type ev \<in> set action_events"
  shows "handle_all ev = then_op (action_handle_event ev) (ret ())"
proof -
  have "process_handle_event ev = ret ()" "capability_handle_event ev = ret ()"
    "lease_handle_event ev = ret ()" "signal_handle_event ev = ret ()"
    using assms unfolding action_events_def list.set
    by (elim disjE insertE emptyE; simp add: process_handle_event_def capability_handle_event_def
        lease_handle_event_def signal_handle_event_def is_process_event_def)+
  then show ?thesis by (simp add: handle_all_run)
qed

text \<open>An event about an action, and the row it announces.\<close>

lemma durable_action_event:
  assumes d: "durable s" and a: "get_action s aid = Some a" and ty: "ty \<in> set action_events"
    and pl: "dict_get pl ''action_id'' = VStr aid" and ev: "ev = next_event s ts pid ty (PDict pl)"
    and same: "\<And>x. same_action x a \<Longrightarrow> same_action (replay_action ev x) b"
  shows "durable (upsert_action b (journaled s ev))"
proof (rule durable_write [where f = "upsert_action b", OF d refl ev])
  have no: "ty \<noteq> ''ACTION_SUBMITTED''" using ty by (auto simp: action_events_def)
  show "ty \<noteq> ''CAPABILITY_GRANTED''" using ty by (auto simp: action_events_def)
  fix r assume r: "agrees r s"
  obtain x where x: "get_action r aid = Some x" "same_action x a"
    using agrees_get(1) [OF r, of aid] a by (auto elim: option.rel_cases)
  have "action_handle_event ev r = (Inr (), upsert_action (replay_action ev x) r)"
    using ty no x(1) pl by (simp add: ev action_handle_event_def payload_get_def)
  then have "handle_all ev r = (Inr (), upsert_action (replay_action ev x) r)"
    using ty by (simp add: handle_action_event ev then_op_def bind_op_def)
  moreover have "agrees (upsert_action (replay_action ev x) r) (upsert_action b (journaled s ev))"
    using r by (intro agrees_upsert_action same [OF x(2)]) simp
  ultimately show "\<exists>r'. handle_all ev r = (Inr (), r') \<and> agrees r' (upsert_action b (journaled s ev))" by blast
qed simp_all

text \<open>A row change that a state event of this type announces.\<close>

definition announced :: "string \<Rightarrow> pydict \<Rightarrow> action_state \<Rightarrow> (acb \<Rightarrow> acb) \<Rightarrow> bool" where
  "announced ty pl target changes \<longleftrightarrow> ty \<in> set action_events \<and>
     (\<forall>ev x a. ev_event_type ev = ty \<and> ev_payload ev = PDict pl \<and> same_action x a \<longrightarrow>
        same_action (replay_action ev x) (changes (a\<lparr>a_state := target\<rparr>)))"

lemma durable_move:
  assumes d: "durable s" and a: "get_action s aid = Some a" and ann: "announced ty pl target changes"
    and pl: "dict_get pl ''action_id'' = VStr aid"
  shows "durable (upsert_action (changes (a\<lparr>a_state := target\<rparr>)) (journaled s (next_event s ts pid ty (PDict pl))))"
  using ann by (intro durable_action_event [OF d a _ pl refl]) (auto simp: announced_def)

lemma durably_move:
  assumes ann: "announced ty pl target changes" and pl: "dict_get pl ''action_id'' = VStr aid"
  shows "steps durably (with_action aid (\<lambda>a. move_action a target changes ty pl))"
proof (rule durablyI)
  fix s assume d: "durable s"
  show "durable (snd (with_action aid (\<lambda>a. move_action a target changes ty pl) s))"
  proof (cases "get_action s aid")
    case (Some a)
    show ?thesis
    proof (cases "apply_action_transition a target")
      case (Inr x)
      then have x: "fst x = a\<lparr>a_state := target\<rparr>" using apply_action_InrD(1) [of a target "fst x" "snd x"] by simp
      show ?thesis
        using Some Inr x durable_move [OF d Some ann pl] emit_ok [OF durableD(1) [OF d]]
        by (auto simp: with_action_def move_action_def bind_op_def then_op_def split: prod.splits)
    qed (use Some d in \<open>simp add: with_action_def move_action_def\<close>)
  qed (use d in \<open>simp add: with_action_def\<close>)
qed

lemma timed_move:
  "with_action aid (\<lambda>a. bind_op (gets k_now) (\<lambda>now. move_action a target (changes now) ty pl)) s =
    with_action aid (\<lambda>a. move_action a target (changes (k_now s)) ty pl) s"
  unfolding with_action_def by (cases "get_action s aid") simp_all

lemma durably_move_timed:
  assumes "\<And>now. announced ty pl target (changes now)" "dict_get pl ''action_id'' = VStr aid"
  shows "steps durably (with_action aid (\<lambda>a. bind_op (gets k_now) (\<lambda>now. move_action a target (changes now) ty pl)))"
proof (rule stepsI)
  fix s
  show "durably s (snd (with_action aid (\<lambda>a. bind_op (gets k_now) (\<lambda>now. move_action a target (changes now) ty pl)) s))"
    unfolding timed_move
    using durably_move [of ty pl target "changes (k_now s)" aid] assms(1) [of "k_now s"] assms(2)
    by (simp only: steps_def)
qed

text \<open>The announced changes of each operation.\<close>

lemma same_action_update:
  assumes "same_action x a"
  shows "same_action (x\<lparr>a_state := st, a_error := e, a_finished_at := f\<rparr>)
      (a\<lparr>a_state := st, a_error := e', a_finished_at := f'\<rparr>)"
    and "same_action (x\<lparr>a_state := st, a_result := res, a_finished_at := f\<rparr>)
      (a\<lparr>a_state := st, a_result := res, a_finished_at := f'\<rparr>)"
  using assms by (cases x; cases a; simp add: same_action_def)+

lemma replay_action_state:
  assumes "action_event_state ty = Some st" "ty \<noteq> ''ACTION_COMMITTED''" "ev_event_type ev = ty"
  shows "\<exists>e f. replay_action ev x = x\<lparr>a_state := st, a_error := e, a_finished_at := f\<rparr>"
proof -
  have "ty \<noteq> ''ACTION_INTENT_DURABLE''" "ty \<noteq> ''ACTION_RETRY_RESERVED''"
    using assms(1) by (auto simp: action_event_state_def)
  then show ?thesis
    using assms by (cases x) (auto simp: replay_action_def Let_def)
qed

lemma only_outcome:
  fixes a :: acb
  shows "\<exists>e f. a = a\<lparr>a_error := e, a_finished_at := f\<rparr>"
    and "\<exists>e' f. a\<lparr>a_error := e\<rparr> = a\<lparr>a_error := e', a_finished_at := f\<rparr>"
    and "\<exists>e f. a\<lparr>a_finished_at := ts\<rparr> = a\<lparr>a_error := e, a_finished_at := f\<rparr>"
  by (cases a; simp)+

lemma announced_state:
  assumes "action_event_state ty = Some target" "ty \<noteq> ''ACTION_COMMITTED''"
    and "\<And>a. \<exists>e f. changes a = a\<lparr>a_error := e, a_finished_at := f\<rparr>"
  shows "announced ty pl target changes"
  unfolding announced_def
proof (intro conjI allI impI)
  show "ty \<in> set action_events"
    using assms(1) by (auto simp: action_event_state_def action_events_def split: if_splits)
  fix ev :: event and x a
  assume "ev_event_type ev = ty \<and> ev_payload ev = PDict pl \<and> same_action x a"
  then show "same_action (replay_action ev x) (changes (a\<lparr>a_state := target\<rparr>))"
    using replay_action_state [OF assms(1,2), of ev x] assms(3) [of "a\<lparr>a_state := target\<rparr>"] same_action_update(1) [where st = target]
    by auto
qed

lemma announced_commit:
  assumes "dict_get pl ''result'' = VDict d"
  shows "announced ''ACTION_COMMITTED'' pl ACommitted (\<lambda>b. b\<lparr>a_result := Some d, a_finished_at := Some ts\<rparr>)"
  unfolding announced_def
proof (intro conjI allI impI)
  fix ev :: event and x a
  assume "ev_event_type ev = ''ACTION_COMMITTED'' \<and> ev_payload ev = PDict pl \<and> same_action x a"
  then show "same_action (replay_action ev x) (a\<lparr>a_state := ACommitted, a_result := Some d, a_finished_at := Some ts\<rparr>)"
    using assms same_action_update(2) [where st = ACommitted and res = "Some d"]
    by (simp add: replay_action_def action_event_state_def payload_get_def)
qed (simp add: action_events_def)

lemma durably_admit: "steps durably (admit aid)"
  unfolding admit_def by (rule durably_move, rule announced_state) (auto simp: action_event_state_def dict_get_def only_outcome)

lemma durably_reject: "steps durably (reject aid reason)"
  unfolding reject_def by (rule durably_move, rule announced_state) (auto simp: action_event_state_def dict_get_def only_outcome)

lemma durably_dispatch_action: "steps durably (dispatch_action aid)"
  unfolding dispatch_action_def by (rule durably_move, rule announced_state) (auto simp: action_event_state_def dict_get_def only_outcome)

lemma durably_fail: "steps durably (fail aid error)"
  unfolding fail_def by (rule durably_move_timed, rule announced_state) (auto simp: action_event_state_def dict_get_def only_outcome)

lemma durably_mark_uncertain: "steps durably (mark_uncertain aid detail)"
  unfolding mark_uncertain_def by (rule durably_move_timed, rule announced_state) (auto simp: action_event_state_def dict_get_def only_outcome)

lemma durably_cancel: "steps durably (cancel aid)"
  unfolding cancel_def by (rule durably_move_timed, rule announced_state) (auto simp: action_event_state_def dict_get_def only_outcome)

text \<open>The decisions taken inside one transaction.\<close>

lemma durable_finish:
  assumes d: "durable s" and a: "get_action s aid = Some a"
    and ann: "announced ty pl target (\<lambda>b. (changes b)\<lparr>a_finished_at := Some ts\<rparr>)"
    and pl: "dict_get pl ''action_id'' = VStr aid"
    and run: "finish_tx a target ts changes ty pl s = (Inr u, t)"
  shows "durable t"
proof (cases "apply_action_transition a target")
  case (Inr x)
  then have x: "fst x = a\<lparr>a_state := target\<rparr>" using apply_action_InrD(1) [of a target "fst x" "snd x"] by simp
  show ?thesis
    using durable_move [OF d a ann pl, of ts "a_pid a"] run Inr x emit_tx_at_ok [OF durableD(1) [OF d]]
    by (auto simp: finish_tx_def then_op_def bind_op_def split: prod.splits)
qed (use run in \<open>simp add: finish_tx_def\<close>)

lemma durably_transaction:
  "(\<And>s x t. durable s \<Longrightarrow> m s = (Inr x, t) \<Longrightarrow> durable t) \<Longrightarrow> steps durably (transaction m)"
  by (rule durablyI) (simp add: transaction_def split: prod.split sum.split)

lemma durable_finish_error:
  assumes "durable s" "get_action s aid = Some a" "action_event_state ty = Some target" "ty \<noteq> ''ACTION_COMMITTED''"
    "dict_get pl ''action_id'' = VStr aid"
    "finish_tx a target ts (\<lambda>b. b\<lparr>a_error := e\<rparr>) ty pl s = (Inr u, t)"
  shows "durable t"
proof -
  have "announced ty pl target (\<lambda>b. b\<lparr>a_error := e, a_finished_at := Some ts\<rparr>)"
    by (rule announced_state [OF assms(3,4)]) blast
  from durable_finish [OF assms(1,2) this assms(5,6)] show ?thesis .
qed

lemma durable_finish_commit:
  assumes "durable s" "get_action s aid = Some a" "dict_get pl ''action_id'' = VStr aid" "dict_get pl ''result'' = VDict d"
    "finish_tx a ACommitted ts (\<lambda>b. b\<lparr>a_result := Some d\<rparr>) ''ACTION_COMMITTED'' pl s = (Inr u, t)"
  shows "durable t"
  using durable_finish [OF assms(1,2) announced_commit [OF assms(4)] assms(3,5)] .

lemma durably_fail_if_running: "steps durably (fail_if_running aid error)"
  unfolding fail_if_running_def
proof (rule durably_transaction, goal_cases)
  case (1 s x t)
  then show ?case
  proof (cases "get_action s aid")
    case (Some a)
    then show ?thesis
      using 1 durable_finish_error [OF 1(1) Some, of "''ACTION_FAILED''" AFailed
          "[(''action_id'', VStr aid), (''error'', VDict (or_empty error))]" "k_now s" "Some (or_empty error)" "()" t]
      by (auto simp: then_op_eq_Inr_iff dict_get_def action_event_state_def split: option.splits if_splits)
  qed simp
qed

lemma durably_mark_uncertain_if_running: "steps durably (mark_uncertain_if_running aid detail)"
  unfolding mark_uncertain_if_running_def
proof (rule durably_transaction, goal_cases)
  case (1 s x t)
  then show ?case
  proof (cases "get_action s aid")
    case (Some a)
    then show ?thesis
      using 1 durable_finish_error [OF 1(1) Some, of "''ACTION_UNCERTAIN''" AUncertain
          "[(''action_id'', VStr aid), (''detail'', VDict (uncertain_detail detail))]" "k_now s" "Some (uncertain_detail detail)" "()" t]
      by (auto simp: then_op_eq_Inr_iff dict_get_def action_event_state_def split: option.splits if_splits)
  qed simp
qed

lemma durably_commit_if_fenced: "steps durably (commit_if_fenced aid result now)"
  unfolding commit_if_fenced_def
proof (rule dj.steps_bind, rule dj.steps_gets, rule durably_transaction, goal_cases)
  case (1 ts s x t)
  then show ?case
  proof (cases "get_action s aid")
    case (Some a)
    then show ?thesis
      using 1 durable_finish_commit [OF 1(1) Some, of "[(''action_id'', VStr aid), (''result'', VDict (or_empty result)),
          (''fencing_tokens'', tokens_val (a_fencing_tokens a))]" "or_empty result" ts "()" t]
      by (auto simp: then_op_eq_Inr_iff dict_get_def action_event_state_def split: option.splits if_splits)
  qed simp
qed

lemma durably_reserve: "steps durably (reserve_retry_if_fenced aid now)"
  unfolding reserve_retry_if_fenced_def
proof (rule dj.steps_bind, rule dj.steps_gets, rule durably_transaction, goal_cases)
  case (1 ts s x t)
  then show ?case
  proof (cases "get_action s aid")
    case (Some a)
    let ?b = "a\<lparr>a_retry_count := a_retry_count a + 1\<rparr>"
    let ?pl = "[(''action_id'', VStr aid), (''retry_count'', VInt (a_retry_count a + 1)),
       (''fencing_tokens'', tokens_val (a_fencing_tokens a))]"
    let ?ev = "next_event s ts (a_pid a) ''ACTION_RETRY_RESERVED'' (PDict ?pl)"
    have "same_action (replay_action ?ev y) ?b" if "same_action y a" for y
      using that same_action_sel(7,9) [OF that]
      by (cases y; cases a)
        (auto simp: same_action_def replay_action_def action_event_state_def payload_get_def dict_get_def)
    then have "durable (upsert_action ?b (journaled s ?ev))"
      by (intro durable_action_event [OF 1(1) Some, of "''ACTION_RETRY_RESERVED''" ?pl ?ev])
        (auto simp: action_events_def dict_get_def)
    then show ?thesis
      using 1 Some emit_tx_at_ok [OF durableD(1) [OF 1(1)]]
      by (auto simp: then_op_eq_Inr_iff split: option.splits if_splits)
  qed simp
qed

lemma durably_intent: "steps durably (mark_intent_durable aid lids (Some ts))"
proof (rule durablyI)
  fix s assume d: "durable s"
  show "durable (snd (mark_intent_durable aid lids (Some ts) s))"
  proof (cases "get_action s aid")
    case (Some a)
    let ?b = "a\<lparr>a_lease_ids := lids, a_fencing_tokens := ts\<rparr>"
    let ?pl = "[(''action_id'', VStr aid), (''lease_ids'', VList (map VStr lids)), (''fencing_tokens'', tokens_val ts)]"
    let ?ev = "next_event s (k_now s) (a_pid a) ''ACTION_INTENT_DURABLE'' (PDict ?pl)"
    have "same_action (replay_action ?ev y) ?b" if "same_action y a" for y
      using that
      by (cases y; cases a)
        (auto simp: same_action_def replay_action_def action_event_state_def payload_get_def dict_get_def
          val_strs_def val_tokens_def tokens_val_def comp_def case_prod_unfold)
    then have "durable (upsert_action ?b (journaled s ?ev))"
      by (intro durable_action_event [OF d Some, of "''ACTION_INTENT_DURABLE''" ?pl ?ev])
        (auto simp: action_events_def dict_get_def)
    then show ?thesis
      using Some by (simp add: mark_intent_durable_def with_action_def bind_op_def emit_ok [OF durableD(1) [OF d]])
  qed (simp add: mark_intent_durable_def with_action_def d)
qed

lemma durably_submit: "steps durably (submit pid dev oper args sec rp idem timeout i claims)"
proof -
  have "durable (upsert_action a (journaled s (next_event s (k_now s) pid ''ACTION_SUBMITTED'' (PAcb a))))"
    if d: "durable s" and a: "a_retry_count a = 0" for s pid a
  proof (rule durable_write [where f = "upsert_action a", OF d refl refl])
    let ?ev = "next_event s (k_now s) pid ''ACTION_SUBMITTED'' (PAcb a)"
    fix r assume r: "agrees r s"
    have "agrees (upsert_action a r) (upsert_action a (journaled s ?ev))"
      using r a by (intro agrees_upsert_action) (simp_all add: same_action_def)
    then show "\<exists>r'. handle_all ?ev r = (Inr (), r') \<and> agrees r' (upsert_action a (journaled s ?ev))"
      by (simp add: handle_action_event action_handle_event_def then_op_def bind_op_def)
  qed simp_all
  then have announce: "steps durably (then_op (emit pid ''ACTION_SUBMITTED'' (PAcb a)) (then_op (modify (upsert_action a)) k))"
    if "a_retry_count a = 0" "steps durably k" for pid a and k :: "acb kop"
    using that by (intro durably_announce_then) auto
  show ?thesis
    unfolding submit_def Let_def
    by (intro dj.steps_bind dj.steps_gets announce dj.steps_ret)
      (auto split: option.split intro!: durably_uuid dj.steps_ret)
qed

section \<open>Sessions\<close>

interpretation ds: services durably
proof unfold_locales
  show "durably s (snd (mark_intent_durable aid lids (Some ts) s))" for s aid lids ts
    by (rule dj.at_steps) (rule durably_intent)
  show "durably s (snd (commit_if_fenced aid res (Some (k_now s)) s))" for s aid res
    by (rule dj.at_steps) (rule durably_commit_if_fenced)
  show "durably s (snd (reserve_retry_if_fenced aid (Some (k_now s)) s))" for s aid
    by (rule dj.at_steps) (rule durably_reserve)
qed (simp_all add: durably_emit durably_uuid durably_tables durably_transition durably_spawn durably_exited durably_meta
    durably_caps durably_send durably_deliver durably_acquire durably_release durably_release_all durably_reclaim
    durably_submit durably_admit durably_reject durably_dispatch_action durably_fail durably_mark_uncertain
    durably_cancel durably_fail_if_running durably_mark_uncertain_if_running)

lemma init_durable: "durable init_kstate"
  by (simp add: durable_def agrees_def init_kstate_def journal_ok_def lease_inv_def)

lemma session_durable: "session detached init_kstate t \<Longrightarrow> durable t"
  using ds.session_respects [OF _ ds.detached_rely] init_durable by (simp add: durably_def)

text \<open>
  C9: Rebuilding from the journal. After any session from an empty database (ticks, runs, system
  calls, spawns, passing time; drivers and programs do not write to the database themselves), a
  kernel rebuilt from the journal alone comes up without an exception and has the same leases,
  fences, signals and capability sets, the same actions up to the error text and finishing time, the
  same processes (identity, state, priority, and while they live the wait condition; not the
  checkpoint reference, exit code, result reference and event cursor), and the same journal. The waiter and checkpoint
  tables come back empty. The bound is the page size of the read that the rebuild uses.
\<close>

theorem rebuild_restores_the_tables:
  assumes "session detached init_kstate t" "length (k_journal t) \<le> 10 ^ 9"
  shows "\<exists>u. rebuild_from_journal ids strict t = (Inr (create_kernel ids strict), u) \<and>
    k_leases u = k_leases t \<and> k_fences u = k_fences t \<and> k_signals u = k_signals t \<and>
    k_capability_sets u = k_capability_sets t \<and>
    list_all2 same_action (k_actions u) (k_actions t) \<and> list_all2 same_process (k_processes u) (k_processes t) \<and>
    k_journal u = k_journal t \<and> k_waiters u = [] \<and> k_checkpoints u = []"
proof -
  from session_durable [OF assms(1)] obtain r where
    t: "journal_ok t" "\<forall>ev \<in> set (k_journal t). ev_event_type ev \<noteq> ''CAPABILITY_GRANTED''"
    and r: "for_op (k_journal t) handle_all init_kstate = (Inr (), r)" "agrees r t"
    by (auto simp: durable_def)
  have "k_fences r = k_fences t" using r(2) by (simp add: agrees_def)
  from rebuild_of_replay [OF t(1) assms(2) t(2) r(1) this, of ids strict] obtain u where
    "rebuild_from_journal ids strict t = (Inr (create_kernel ids strict), u)" "mirrors (k_fences t) r u"
    "outside u = (k_journal t, k_next_offset t, k_uuids t, [], [])"
    by blast
  then show ?thesis using r(2) by (auto simp: mirrors_def agrees_def outside_def max_fence_simps)
qed

theorem rebuild_restores_the_tables_witness:
  "let t = snd (kernel_spawn (default_env (\<lambda>_. [])) ''demo'' (\<lambda>_ _. raise (ValueError [])) ''ns'' None init_kstate)
   in \<exists>u. rebuild_from_journal (\<lambda>_. []) True t = (Inr (create_kernel (\<lambda>_. []) True), u) \<and> length (k_processes u) = 1"
proof -
  let ?t = "snd (kernel_spawn (default_env (\<lambda>_. [])) ''demo'' (\<lambda>_ _. raise (ValueError [])) ''ns'' None init_kstate)"
  have "session detached init_kstate ?t" by (intro session_spawn session_start default_env_detached)
  moreover have "length (k_journal ?t) \<le> 20" "length (k_processes ?t) = 1" by code_simp+
  ultimately show ?thesis
    using rebuild_restores_the_tables [of ?t "\<lambda>_. []" True] by (auto simp: Let_def dest: list_all2_lengthD)
qed

end
