(* ===== verification/Spec2Isabelle.thy ===== *)
theory Spec2Isabelle
  imports KernelLaws Rebuild
begin

text \<open>
  A verification development for the agent kernel of LongHorizonOS (\<open>src/src/lhos/agent_os\<close>).

  \<^bold>\<open>The program.\<close> The kernel runs agent programs as processes. All its state is in one SQLite
  database: a journal of events, and tables (projections) for processes, actions, leases, fencing
  tokens, signals, capability sets, waiters, program states and checkpoints. Services own one table
  each and announce every change in the journal. The dispatcher turns system calls of processes into
  calls of the services. The kernel loop (\<open>AgentKernel.tick\<close>) reclaims expired leases, recovers from
  deadlocks, dispatches admitted actions to drivers, recovers actions whose outcome is unknown,
  delivers signals and steps one process. An action may have effects outside, so it is fenced: it
  holds leases on the resources it claims, with tokens that grow, and it commits only while its
  tokens are current.

  \<^bold>\<open>State and operations.\<close> The database is one record \<open>kstate\<close> (Models), a table is a list of rows in
  insertion order with the key and merge function of its upsert. An operation of a service is a
  function from the state to an error or a result and the new state (\<open>op\<close> in Prelude): a Python
  exception is a value \<open>Inl\<close>, a \<open>with storage.transaction()\<close> block is the combinator \<open>transaction\<close>, which
  restores the tables when its body raises. The clock is a column of the state that a step of a
  session may move forward; \<open>uuid4\<close> draws identifiers that were not used before. Names of definitions are the
  names of the functions they translate.

  \<^item> Prelude: Python values, the operation type and its combinators, the locale \<open>op_preorder\<close> that
    lifts a relation between states from single writes to whole operations, keyed tables
    (locale \<open>keyed_store\<close>), fresh identifiers.
  \<^item> Models: \<open>kernel/models.py\<close>, \<open>kernel/errors.py\<close> and the tables of \<open>storage/schema.py\<close>.
  \<^item> StateMachine: \<open>kernel/state_machine.py\<close>; the locale \<open>control_machine\<close> is what both machines promise.
  \<^item> Journal, Processes, Signals, Capabilities, Leases, Actions: \<open>services/*.py\<close>, each with its replay
    handler; Fnmatch is the pattern matching of the standard library that capabilities use;
    Deadlock is the cycle search of the lease service.
  \<^item> Dispatcher: \<open>kernel/dispatcher.py\<close>, one definition per system call.
  \<^item> Kernel: \<open>kernel/kernel.py\<close>. Drivers and programs are parameters (the record \<open>env\<close>).
  \<^item> Drivers: \<open>drivers/mock_model.py\<close>, \<open>drivers/mock_device.py\<close> and \<open>programs/scripted.py\<close>.
  \<^item> Replay: \<open>rebuild_projections\<close> of \<open>services/journal.py\<close> and the construction of a kernel in
    \<open>sdk/client.py\<close>.

  \<^bold>\<open>What is shown.\<close>

  \<^item> Steps, Refine, KernelSteps: an abstract step relation \<open>kstep\<close> on the state (what may change, and
    when), and that every operation of the detailed model is a sequence of such steps. The locale
    \<open>services\<close> is the contract of the service operations towards the dispatcher and the loop, for any
    relation that composes; \<open>kernel_rely\<close> adds what is relied on of drivers and programs. A \<open>session\<close> is
    any sequence of ticks, runs, system calls, spawns and passing time, with or without exceptions.
  \<^item> Safety and this theory: what holds across every session. Terminal actions are frozen, commits
    are fenced, exclusive leases exclude, superseded tokens stay superseded, a second retry is never
    granted, actions and processes follow their machines, the journal only grows, signals are kept.
  \<^item> Durable and Rebuild: every session keeps the journal sufficient, so that a rebuild restores the
    tables. The comparison relations say which columns a rebuild does not restore.
  \<^item> LeaseLaws, ActionLaws, SignalLaws, CapabilityLaws, DispatcherLaws, KernelLaws: what each
    operation does on every branch, among them acquisition of all claims or none, soundness and
    completeness of deadlock detection, the meaning of the fencing contract, delivery of signals, the
    limits of delegation, exit, and recovery from a deadlock.
  \<^item> Theorems named after an error (\<open>busy_acquire_escapes_tick\<close>, \<open>second_deadlock_escapes_tick\<close>,
    \<open>verify_child_subset_question_mark\<close>) show behaviour of the code that its documentation rules out.
  \<^bold>\<open>Bounds and fuel.\<close> \<open>run_until_idle\<close> runs at most its given number of ticks, as in the code. The
  cycle search needs no fuel: it recurses on the unvisited part of the graph. A rebuild reads the
  journal with the limit of one thousand million events that \<open>read_all\<close> passes, and the theorem about it has
  this bound as a hypothesis. Integers are unbounded as in Python, times are microseconds.
  \<^bold>\<open>Not modelled.\<close> SQLite itself (its serialised transactions are the atomic operations of the model),
  threads of the driver calls, sleeping and logging. Floating point numbers do not occur among the values of
  payloads. Python text is text over code points below 256.
  Of the rest of the repository, the artifact file system and the context pager (\<open>agent_os/artifacts\<close>,
  \<open>agent_os/context\<close>), the transactional outbox (\<open>services/outbox.py\<close>), the command line, the console and
  the layers above the kernel (\<open>sdk\<close> of the package, \<open>runtimes\<close>, \<open>integrations\<close>, \<open>benchmarks\<close>, \<open>agents\<close>,
  \<open>graph\<close>, \<open>provenance\<close>) are outside the development: they call the kernel or stand beside it, and most of them
  wrap model back ends, subprocesses and files.
\<close>

section \<open>Actions across sessions\<close>

text \<open>
  C1: A finished action stays exactly as it finished. Once the row of an action is in a terminal
  state (committed, failed, cancelled, timed out or uncertain), no sequence of ticks, system calls
  and spawns changes any column of it, whatever drivers and programs do and however the calls end.
\<close>

theorem terminal_actions_are_frozen:
  assumes "kernel_session s t" "ids_ok s" "get_action s aid = Some a" "a_state a \<in> TERMINAL_ACTION_STATES"
  shows "get_action t aid = Some a"
proof -
  have "\<forall>a. get_action s aid = Some a \<and> a_state a \<in> TERMINAL_ACTION_STATES \<longrightarrow> get_action t aid = Some a"
    using assms(1,2)
  proof (rule session_relation)
    fix u v assume "kstep u v"
    then show "\<forall>a. get_action u aid = Some a \<and> a_state a \<in> TERMINAL_ACTION_STATES \<longrightarrow> get_action v aid = Some a"
      using kstep_action [of u v aid] unfolding action_next_def by blast
  qed blast+
  then show ?thesis using assms(3,4) by blast
qed

theorem terminal_actions_are_frozen_witness:
  "get_action sample_end ''cx'' = get_action sample ''cx'' \<and> get_action sample ''cx'' \<noteq> None"
proof -
  have "get_action sample ''cx'' = Some (running_action\<lparr>a_action_id := ''cx'', a_state := ACommitted\<rparr>)"
    by (simp add: sample_def get_action_def)
  then show ?thesis
    using terminal_actions_are_frozen [OF sample_session sample_ok(1), of "''cx''"]
    by (simp add: terminal_action_iff)
qed

text \<open>
  C10: The life of an action. Across a session an action keeps its identity (process, device,
  operation, arguments, claims, classification), its state moves only along edges of the transition
  table, and its retry counter changes at most from 0 to 1, and only for a pure action under the
  retry policy.
\<close>

theorem action_lifecycle:
  assumes "kernel_session s t" "ids_ok s" "get_action s aid = Some a"
  shows "\<exists>b. get_action t aid = Some b \<and> action_fixed a b \<and> (a_state a, a_state b) \<in> action_edges\<^sup>* \<and>
    (a_retry_count b = a_retry_count a \<or> a_retry_count a < a_retry_count b \<and> a_retry_count b \<le> 1 \<and>
       a_side_effect_class a = PURE \<and> a_recovery_policy a = RETRY)"
proof -
  have "\<forall>a. get_action s aid = Some a \<longrightarrow> (\<exists>b. get_action t aid = Some b \<and> action_history a b)"
    using assms(1,2)
  proof (rule session_relation)
    fix u v assume "kstep u v"
    then show "\<forall>a. get_action u aid = Some a \<longrightarrow> (\<exists>b. get_action v aid = Some b \<and> action_history a b)"
      using kstep_action action_next_history by blast
  qed (blast intro: action_history_refl action_history_trans)+
  then show ?thesis using assms(3) unfolding action_history_def by blast
qed

theorem action_lifecycle_witness:
  "\<exists>b. get_action sample_end ''ax'' = Some b \<and> a_pid b = ''px'' \<and> (ARunning, a_state b) \<in> action_edges\<^sup>*"
proof -
  have "get_action sample ''ax'' = Some running_action" by (simp add: sample_def get_action_def running_action_def)
  from action_lifecycle [OF sample_session sample_ok(1) this] obtain b where
    "get_action sample_end ''ax'' = Some b" "action_fixed running_action b"
    "(a_state running_action, a_state b) \<in> action_edges\<^sup>*" by blast
  then show ?thesis by (auto simp: action_fixed_def running_action_def simp del: set_map)
qed

text \<open>
  C8: The retry budget. Starting from a database in which every action has spent at most the one
  retry a pure action under the retry policy may have, this stays so for all actions, old and new,
  across every session: no action is ever granted a second retry.
\<close>

theorem retry_budget_is_one:
  assumes "kernel_session s t" "ids_ok s"
    and "\<forall>aid a. get_action s aid = Some a \<longrightarrow> a_retry_count a = 0 \<or>
      a_retry_count a = 1 \<and> a_side_effect_class a = PURE \<and> a_recovery_policy a = RETRY"
    and "get_action t aid = Some b"
  shows "a_retry_count b = 0 \<or> a_retry_count b = 1 \<and> a_side_effect_class b = PURE \<and> a_recovery_policy b = RETRY"
proof -
  let ?I = "\<lambda>s. \<forall>aid a. get_action s aid = Some a \<longrightarrow> a_retry_count a = 0 \<or>
      a_retry_count a = 1 \<and> a_side_effect_class a = PURE \<and> a_recovery_policy a = RETRY"
  have "?I s \<longrightarrow> ?I t"
    using assms(1,2)
  proof (rule session_relation)
    fix u v assume "kstep u v"
    then show "?I u \<longrightarrow> ?I v" using kstep_retries by blast
  qed blast+
  then show ?thesis using assms(3,4) by blast
qed

theorem retry_budget_is_one_witness:
  "\<exists>b. get_action sample_end ''ax'' = Some b \<and> a_retry_count b \<le> 1"
proof -
  have start: "\<forall>aid a. get_action sample aid = Some a \<longrightarrow> a_retry_count a = 0 \<or>
      a_retry_count a = 1 \<and> a_side_effect_class a = PURE \<and> a_recovery_policy a = RETRY"
    by (auto simp: sample_def get_action_def running_action_def)
  have "get_action sample ''ax'' = Some running_action" by (simp add: sample_def get_action_def running_action_def)
  then obtain b where "get_action sample_end ''ax'' = Some b"
    using session_relation [OF sample_session sample_ok(1), of
        "\<lambda>u v. get_action u ''ax'' \<noteq> None \<longrightarrow> get_action v ''ax'' \<noteq> None"] kstep_action by fastforce
  then show ?thesis using retry_budget_is_one [OF sample_session sample_ok(1) start] by fastforce
qed

text \<open>
  C2: A commit happens under a valid fence. If an action that is not committed at the start of a
  session is committed at the end, then there is a step of the session that commits it, and at that
  instant the action is running and its fencing contract is valid at the time of the clock.
\<close>

theorem commits_are_fenced:
  assumes "kernel_session s t" "ids_ok s" "get_action s aid = Some a" "a_state a \<noteq> ACommitted"
    and "get_action t aid = Some b" "a_state b = ACommitted"
  shows "\<exists>u v c d. kstep\<^sup>*\<^sup>* s u \<and> kstep u v \<and> kstep\<^sup>*\<^sup>* v t \<and>
    get_action u aid = Some c \<and> a_state c = ARunning \<and> validate_fencing_contract_tx u c (k_now u) = None \<and>
    get_action v aid = Some d \<and> a_state d = ACommitted"
proof -
  have "kstep\<^sup>*\<^sup>* s t" using session_steps [OF assms(1,2)] by blast
  then show ?thesis
    using assms(5,6)
  proof (induction arbitrary: b rule: rtranclp_induct)
    case base
    then show ?case using assms(3,4) by simp
  next
    case (step u v)
    show ?case
    proof (cases "\<exists>c. get_action u aid = Some c \<and> a_state c = ACommitted")
      case True
      then show ?thesis using step.IH step.hyps(2) by (blast intro: rtranclp.rtrancl_into_rtrancl)
    next
      case False
      then obtain c where "get_action u aid = Some c" "a_state c = ARunning"
        "validate_fencing_contract_tx u c (k_now u) = None"
        using kstep_commits [OF step.hyps(2) step.prems] by blast
      then show ?thesis using step.hyps step.prems by blast
    qed
  qed
qed

theorem commits_are_fenced_witness:
  "\<exists>u c. kstep\<^sup>*\<^sup>* sample u \<and> get_action u ''ax'' = Some c \<and> a_state c = ARunning \<and>
     validate_fencing_contract_tx u c (k_now u) = None"
proof -
  let ?t = "snd (tick (default_env (\<lambda>_. [])) sample)"
  have "map_option a_state (get_action ?t ''ax'') = Some ACommitted" by code_simp
  then obtain b where b: "get_action ?t ''ax'' = Some b" "a_state b = ACommitted" by blast
  have a: "get_action sample ''ax'' = Some running_action" "a_state running_action \<noteq> ACommitted"
    by (simp_all add: sample_def get_action_def running_action_def)
  have "kernel_session sample ?t" by (intro session_tick session_start dk.kernel_rely_axioms)
  from commits_are_fenced [OF this sample_ok(1) a b] show ?thesis by blast
qed

section \<open>Leases, fences and processes across sessions\<close>

text \<open>
  C4: Mutual exclusion. The lease invariant holds after every session that starts with it: lease
  identifiers are unique, a resource under an exclusive lease has no other lease, and the token of
  every lease is the current fence of its resource, a positive number.
\<close>

theorem lease_invariant_is_kept:
  assumes "kernel_session s t" "ids_ok s" "lease_inv s"
  shows "distinct (map l_lease_id (k_leases t)) \<and>
    (\<forall>l \<in> set (k_leases t). k_fences t (l_resource_id l) = Some (l_fencing_token l) \<and> 0 < l_fencing_token l \<and>
       (\<forall>l' \<in> set (k_leases t). l_resource_id l' = l_resource_id l \<and> l' \<noteq> l \<longrightarrow> l_mode l = Shared \<and> l_mode l' = Shared))"
proof -
  have "lease_inv s \<longrightarrow> lease_inv t"
    using assms(1,2) by (rule session_relation) (blast intro: kstep_lease_inv)+
  then have inv: "lease_inv t" using assms(3) by blast
  show ?thesis using lease_invD [OF inv] by (metis (full_types))
qed

theorem lease_invariant_is_kept_witness:
  "distinct (map l_lease_id (k_leases sample_end)) \<and> list_all (\<lambda>l. 0 < l_fencing_token l) (k_leases sample_end)"
  using lease_invariant_is_kept [OF sample_session sample_ok(1,2)] by (simp add: list_all_iff)

text \<open>
  C5: Fencing tokens never go back: across a session the fence of a resource only grows, so a token
  that was superseded once is never current again, and an action that recorded it for one of its
  claims can never pass the fencing check again, at whatever time.
\<close>

theorem superseded_tokens_stay_superseded:
  assumes "kernel_session s t" "ids_ok s" "k_fences s (cl_resource_id c) = Some f"
    and "c \<in> set (a_resource_claims a)" "map_of (a_fencing_tokens a) (cl_resource_id c) = Some tok" "tok < f"
  shows "(\<exists>g. k_fences t (cl_resource_id c) = Some g \<and> f \<le> g) \<and> validate_fencing_contract_tx t a now \<noteq> None"
proof -
  have "\<forall>f. k_fences s (cl_resource_id c) = Some f \<longrightarrow> (\<exists>g. k_fences t (cl_resource_id c) = Some g \<and> f \<le> g)"
    using assms(1,2)
  proof (rule session_relation)
    fix u v assume "kstep u v"
    then show "\<forall>f. k_fences u (cl_resource_id c) = Some f \<longrightarrow> (\<exists>g. k_fences v (cl_resource_id c) = Some g \<and> f \<le> g)"
      using kstep_fence by blast
  qed (blast intro: order_trans)+
  then obtain g where g: "k_fences t (cl_resource_id c) = Some g" "f \<le> g" using assms(3) by blast
  have "validate_fencing_contract_tx t a now \<noteq> None"
  proof
    assume "validate_fencing_contract_tx t a now = None"
    from fencing_contract_claim [OF this assms(4)] show False using g assms(5,6) by auto
  qed
  then show ?thesis using g by blast
qed

theorem superseded_tokens_stay_superseded_witness:
  "validate_fencing_contract_tx sample_end (running_action\<lparr>
     a_resource_claims := [\<lparr>cl_resource_id = ''r'', cl_mode_field = None\<rparr>], a_fencing_tokens := [(''r'', 0)]\<rparr>) 3 \<noteq> None"
  using superseded_tokens_stay_superseded [OF sample_session sample_ok(1), of "\<lparr>cl_resource_id = ''r'', cl_mode_field = None\<rparr>" 1
      "running_action\<lparr>a_resource_claims := [\<lparr>cl_resource_id = ''r'', cl_mode_field = None\<rparr>], a_fencing_tokens := [(''r'', 0)]\<rparr>" 0 3]
  by (simp add: sample_def)

text \<open>
  C11: The end of a process is final. A process that has exited or failed stays in that state across
  every session, and it never obtains a lease again: each lease it holds later was already its own.
\<close>

theorem ended_processes_stay_ended:
  assumes "kernel_session s t" "ids_ok s" "get_process s pid = Some p" "p_state p \<in> TERMINAL_PROCESS_STATES"
  shows "(\<exists>q. get_process t pid = Some q \<and> p_state q = p_state p) \<and>
    (\<forall>l \<in> set (k_leases t). l_owner_pid l = pid \<longrightarrow>
       (\<exists>l' \<in> set (k_leases s). l_lease_id l' = l_lease_id l \<and> l_owner_pid l' = pid))"
proof -
  let ?R = "\<lambda>u v. \<forall>p. get_process u pid = Some p \<and> p_state p \<in> TERMINAL_PROCESS_STATES \<longrightarrow>
    (\<exists>q. get_process v pid = Some q \<and> p_state q = p_state p) \<and>
    (\<forall>l \<in> set (k_leases v). l_owner_pid l = pid \<longrightarrow>
       (\<exists>l' \<in> set (k_leases u). l_lease_id l' = l_lease_id l \<and> l_owner_pid l' = pid))"
  have "?R s t"
    using assms(1,2)
  proof (rule session_relation)
    fix u v assume k: "kstep u v"
    show "?R u v"
    proof (intro allI impI conjI ballI)
      fix p assume p: "get_process u pid = Some p \<and> p_state p \<in> TERMINAL_PROCESS_STATES"
      show "\<exists>q. get_process v pid = Some q \<and> p_state q = p_state p"
        using kstep_process [OF k, of pid p] process_edges_nonterminal p by blast
      show "\<exists>l' \<in> set (k_leases u). l_lease_id l' = l_lease_id l \<and> l_owner_pid l' = pid"
        if "l \<in> set (k_leases v)" "l_owner_pid l = pid" for l
        using kstep_lease_owner [OF k] p that by blast
    qed
  next
    fix u v w assume "?R u v" "?R v w"
    then show "?R u w" by metis
  qed blast
  then show ?thesis using assms(3,4) by blast
qed

theorem ended_processes_stay_ended_witness:
  "\<exists>q. get_process sample_end ''px'' = Some q \<and> p_state q = EXITED"
  using ended_processes_stay_ended [OF sample_session sample_ok(1), of "''px''"
      "(new_pcb ''px'' ''prog'' ''cs'' None ''default'' ''default'' 10 0)\<lparr>p_state := EXITED\<rparr>"]
  by (simp add: sample_def get_process_def new_pcb_def)

section \<open>Journal and signals across sessions\<close>

text \<open>
  C13: The journal is append-only and densely numbered: whatever happens, the journal at the start of
  a session is a prefix of the journal at its end; and if event identifiers, offsets and per-process
  sequence numbers were well formed they still are: offsets are 0, 1, 2, ... and so are the sequence
  numbers of each process.
\<close>

theorem journal_is_append_only:
  assumes "kernel_session s t" "ids_ok s"
  shows "(\<exists>evs. k_journal t = k_journal s @ evs) \<and> (journal_ok s \<longrightarrow> journal_ok t)"
  using assms
proof (rule session_relation)
  fix u v assume "kstep u v"
  then show "(\<exists>evs. k_journal v = k_journal u @ evs) \<and> (journal_ok u \<longrightarrow> journal_ok v)" by (rule kstep_journal)
next
  fix u v w
  assume "(\<exists>evs. k_journal v = k_journal u @ evs) \<and> (journal_ok u \<longrightarrow> journal_ok v)"
    "(\<exists>evs. k_journal w = k_journal v @ evs) \<and> (journal_ok v \<longrightarrow> journal_ok w)"
  then show "(\<exists>evs. k_journal w = k_journal u @ evs) \<and> (journal_ok u \<longrightarrow> journal_ok w)" by auto
qed simp

theorem journal_is_append_only_witness: "journal_ok sample_end"
  using journal_is_append_only [OF sample_session sample_ok(1)] sample_ok(3) by blast

text \<open>
  C14: Signals are neither lost, nor altered, nor delivered twice: across a session a stored signal
  keeps its content, and once consumed it stays consumed.
\<close>

theorem signals_are_kept:
  assumes "kernel_session s t" "ids_ok s" "get_signal s i = Some g"
  shows "\<exists>h. get_signal t i = Some h \<and> h\<lparr>sg_consumed := False\<rparr> = g\<lparr>sg_consumed := False\<rparr> \<and>
    (sg_consumed g \<longrightarrow> sg_consumed h)"
proof -
  have "\<forall>g. get_signal s i = Some g \<longrightarrow> (\<exists>h. get_signal t i = Some h \<and> signal_next g h)"
    using assms(1,2)
  proof (rule session_relation)
    fix u v assume "kstep u v"
    then show "\<forall>g. get_signal u i = Some g \<longrightarrow> (\<exists>h. get_signal v i = Some h \<and> signal_next g h)"
      using kstep_signal by blast
  next
    fix u v w
    assume *: "\<forall>g. get_signal u i = Some g \<longrightarrow> (\<exists>h. get_signal v i = Some h \<and> signal_next g h)"
      "\<forall>g. get_signal v i = Some g \<longrightarrow> (\<exists>h. get_signal w i = Some h \<and> signal_next g h)"
    have "signal_next g k" if "signal_next g h" "signal_next h k" for g h k
      using that by (auto simp: signal_next_def)
    then show "\<forall>g. get_signal u i = Some g \<longrightarrow> (\<exists>h. get_signal w i = Some h \<and> signal_next g h)"
      using * by metis
  qed (simp add: signal_next_def)
  then obtain h where "get_signal t i = Some h" "signal_next g h" using assms(3) by blast
  then show ?thesis by (auto simp: signal_next_def)
qed

theorem signals_are_kept_witness: "\<exists>h. get_signal sample_end ''sx'' = Some h \<and> sg_consumed h"
  using signals_are_kept [OF sample_session sample_ok(1), of "''sx''" "hd (k_signals sample)"]
  by (auto simp: sample_def)

end
